theory Spec2Isabelle
  imports Main "HOL-Library.Word"
begin

unbundle bit_operations_syntax

section \<open>Go values shared by the three source files\<close>

text \<open>
  A Go \<open>error\<close> is a value carrying its message; \<open>nil\<close> is \<open>None\<close> of
  \<open>error option\<close>. A Go function returning \<open>(T, error)\<close> returns a pair here, so
  that the value handed back next to a non-nil error is part of the model.
\<close>

datatype error = Error string

type_synonym bytes = "8 word list"

section \<open>x/epoching/types/hooks.go\<close>

text \<open>
  \<open>EpochingHooks\<close> is an interface of two methods. A hook reads and writes the chain
  state through its \<open>sdk.Context\<close>; the context is threaded here: a hook takes the
  context and the epoch number (\<open>sdk.Uint\<close>, unbounded and non-negative) and returns
  its error together with the context it leaves behind.
\<close>

record 'ctx EpochingHooks =
  AfterEpochBegins :: "'ctx \<Rightarrow> nat \<Rightarrow> error option \<times> 'ctx"
  AfterEpochEnds :: "'ctx \<Rightarrow> nat \<Rightarrow> error option \<times> 'ctx"

type_synonym 'ctx MultiEpochingHooks = "'ctx EpochingHooks list"

definition NewMultiEpochingHooks :: "'ctx EpochingHooks list \<Rightarrow> 'ctx MultiEpochingHooks" where
  "NewMultiEpochingHooks hooks = hooks"

text \<open>\<open>for i := range h\<close>, returning at the first non-nil error.\<close>

fun Multi_AfterEpochBegins ::
  "'ctx MultiEpochingHooks \<Rightarrow> 'ctx \<Rightarrow> nat \<Rightarrow> error option \<times> 'ctx" where
  "Multi_AfterEpochBegins [] ctx epoch = (None, ctx)"
| "Multi_AfterEpochBegins (h # hs) ctx epoch =
     (case AfterEpochBegins h ctx epoch of
        (Some err, ctx') \<Rightarrow> (Some err, ctx')
      | (None, ctx') \<Rightarrow> Multi_AfterEpochBegins hs ctx' epoch)"

fun Multi_AfterEpochEnds ::
  "'ctx MultiEpochingHooks \<Rightarrow> 'ctx \<Rightarrow> nat \<Rightarrow> error option \<times> 'ctx" where
  "Multi_AfterEpochEnds [] ctx epoch = (None, ctx)"
| "Multi_AfterEpochEnds (h # hs) ctx epoch =
     (case AfterEpochEnds h ctx epoch of
        (Some err, ctx') \<Rightarrow> (Some err, ctx')
      | (None, ctx') \<Rightarrow> Multi_AfterEpochEnds hs ctx' epoch)"

text \<open>
  Hooks for running examples: the context is the log of the hooks invoked so far, each
  hook appends its own tag, and a hook either succeeds or fails with a fixed message.
\<close>

definition logging_hook :: "nat \<Rightarrow> error option \<Rightarrow> (nat list) EpochingHooks" where
  "logging_hook tag res =
     \<lparr> AfterEpochBegins = (\<lambda>ctx epoch. (res, ctx @ [tag])),
       AfterEpochEnds = (\<lambda>ctx epoch. (res, ctx @ [tag + 100])) \<rparr>"

section \<open>The command line parsers of the staking module\<close>

text \<open>
  \<open>parseLockTime\<close> and \<open>parseBtcAmount\<close> read their argument with
  \<open>sdkmath.NewIntFromString\<close>, a function of the Cosmos SDK and not of this
  repository. It is a parameter of the two parsers here: a function from the string to
  the integer read, \<open>None\<close> when it reports \<open>ok = false\<close>. The methods of the
  resulting big integer follow \<open>math/big\<close>.
\<close>

definition IsUint64 :: "int \<Rightarrow> bool" where
  "IsUint64 num \<longleftrightarrow> 0 \<le> num \<and> num < 2 ^ 64"

definition Uint64 :: "int \<Rightarrow> 64 word" where
  "Uint64 num = word_of_int num"

definition IsNegative :: "int \<Rightarrow> bool" where
  "IsNegative num \<longleftrightarrow> num < 0"

definition IsInt64 :: "int \<Rightarrow> bool" where
  "IsInt64 num \<longleftrightarrow> - (2 ^ 63) \<le> num \<and> num < 2 ^ 63"

definition Int64 :: "int \<Rightarrow> 64 word" where
  "Int64 num = word_of_int num"

definition MaxUint16 :: "64 word" where
  "MaxUint16 = 65535"

definition parseLockTime :: "(string \<Rightarrow> int option) \<Rightarrow> string \<Rightarrow> 16 word \<times> error option" where
  "parseLockTime NewIntFromString str =
     (case NewIntFromString str of
        None \<Rightarrow> (0, Some (Error (''invalid staking time: '' @ str)))
      | Some num \<Rightarrow>
          if \<not> IsUint64 num then (0, Some (Error ''staking time is not valid uint''))
          else
            let asUint64 = Uint64 num in
            if asUint64 > MaxUint16
            then (0, Some (Error ''staking time is too large. Max is 65535''))
            else (ucast asUint64, None))"

text \<open>\<open>btcutil.Amount\<close> is an \<open>int64\<close>: a 64-bit word read with \<open>sint\<close>.\<close>

definition parseBtcAmount :: "(string \<Rightarrow> int option) \<Rightarrow> string \<Rightarrow> 64 word \<times> error option" where
  "parseBtcAmount NewIntFromString str =
     (case NewIntFromString str of
        None \<Rightarrow> (0, Some (Error (''invalid staking value: '' @ str)))
      | Some num \<Rightarrow>
          if IsNegative num then (0, Some (Error ''staking value is negative''))
          else if \<not> IsInt64 num then (0, Some (Error ''staking value is not valid uint''))
          else
            let asInt64 = Int64 num in
            (asInt64, None))"

text \<open>
  A reader of plain decimal numerals, for running the parsers on concrete strings: an
  optional minus sign and decimal digits with no leading zero, of magnitude below
  \<open>2 ^ 256\<close>. On such strings \<open>sdkmath.NewIntFromString\<close> reads the same integer
  (it also reads other notations, which this reader refuses).
\<close>

definition digit_of :: "char \<Rightarrow> nat option" where
  "digit_of c = map_of (zip ''0123456789'' [0, 1, 2, 3, 4, 5, 6, 7, 8, 9]) c"

fun digits_value :: "nat \<Rightarrow> string \<Rightarrow> nat option" where
  "digits_value acc [] = Some acc"
| "digits_value acc (c # cs) =
     (case digit_of c of None \<Rightarrow> None | Some d \<Rightarrow> digits_value (10 * acc + d) cs)"

definition decimal_magnitude :: "string \<Rightarrow> nat option" where
  "decimal_magnitude s =
     (if s = [] \<or> (hd s = CHR ''0'' \<and> length s > 1) then None
      else case digits_value 0 s of
             None \<Rightarrow> None
           | Some n \<Rightarrow> if n < 2 ^ 256 then Some n else None)"

definition decimal_reader :: "string \<Rightarrow> int option" where
  "decimal_reader s =
     (case s of
        [] \<Rightarrow> None
      | c # cs \<Rightarrow>
          if c = CHR ''-'' then map_option (\<lambda>n. - int n) (decimal_magnitude cs)
          else map_option int (decimal_magnitude s))"

section \<open>The staking output: keys, scripts, tree and witnesses\<close>

text \<open>
  The package \<open>btcstaking\<close> (\<open>BuildStakingInfo\<close>, the \<open>SpendInfo\<close> accessors and
  the \<open>Create...PathWitness\<close> functions) is called by the tests under \<open>src/\<close>, but
  its own code is not among the sources. This section models it from the spec
  (sections 3 and 4), with the function names the tests call. The judge of a witness,
  the script interpreter, is the \<open>txscript\<close> engine of btcd: it is modelled further
  down from the rules of BIP-341 and BIP-342 for the opcodes the three leaves use.
\<close>

subsection \<open>Keys and their order\<close>

type_synonym PublicKey = bytes
type_synonym Signature = bytes

text \<open>\<open>bytes.Compare\<close> of Go: lexicographic on unsigned bytes, -1, 0 or 1.\<close>

fun Compare :: "bytes \<Rightarrow> bytes \<Rightarrow> int" where
  "Compare [] [] = 0"
| "Compare [] (y # ys) = - 1"
| "Compare (x # xs) [] = 1"
| "Compare (x # xs) (y # ys) =
     (if x < y then - 1 else if y < x then 1 else Compare xs ys)"

text \<open>
  \<open>sort.SliceStable\<close> with the comparison \<open>lt\<close>: a stable insertion sort. An
  element is placed before the first element it is less than.
\<close>

fun insert_stable :: "('a \<Rightarrow> 'a \<Rightarrow> bool) \<Rightarrow> 'a \<Rightarrow> 'a list \<Rightarrow> 'a list" where
  "insert_stable lt x [] = [x]"
| "insert_stable lt x (y # ys) =
     (if lt y x then y # insert_stable lt x ys else x # y # ys)"

definition SliceStable :: "('a \<Rightarrow> 'a \<Rightarrow> bool) \<Rightarrow> 'a list \<Rightarrow> 'a list" where
  "SliceStable lt xs = foldr (insert_stable lt) xs []"

text \<open>
  From the test helpers of \<open>src/unnamed/part_000\<close>: \<open>sortSignatureInfo\<close> orders the
  signatures by descending serialized public key of their signers.
\<close>

record SignatureInfo =
  SignerPubKey :: PublicKey
  Signature :: Signature

definition NewSignatureInfo :: "PublicKey \<Rightarrow> Signature \<Rightarrow> SignatureInfo" where
  "NewSignatureInfo signerPubKey signature =
     \<lparr> SignerPubKey = signerPubKey, Signature = signature \<rparr>"

definition sortSignatureInfo :: "SignatureInfo list \<Rightarrow> SignatureInfo list" where
  "sortSignatureInfo infos =
     SliceStable (\<lambda>i j. Compare (SignerPubKey i) (SignerPubKey j) = 1) infos"

text \<open>
  Modelled from the spec: the one ordering function shared by the script builder and
  the witness assembler (sections 3 and 9), keys by descending byte-lexicographic order
  of their serialized form. Slot \<open>i\<close> of a role belongs to key \<open>i\<close> of this order.
\<close>

definition sortKeys :: "PublicKey list \<Rightarrow> PublicKey list" where
  "sortKeys keys = SliceStable (\<lambda>a b. Compare a b = 1) keys"

subsection \<open>Data model (spec section 3)\<close>

text \<open>
  Modelled from the spec: the records of section 3, for the types of the absent package.
  A public key is its 32-byte x-only serialization and a signature its serialization;
  the covenant threshold is a count.
\<close>

record KeySet =
  staker :: PublicKey
  validators :: "PublicKey list"
  covenant :: "PublicKey list"
  covenant_threshold :: nat

datatype Network = MainNet | TestNet | SimNet | RegTest

record LockParams =
  staking_amount :: int
  timelock_blocks :: "16 word"
  network :: Network

text \<open>The opcodes of the three leaf scripts; \<open>OP_NUM n\<close> pushes the number \<open>n\<close>.\<close>

datatype opcode =
    OP_DATA bytes
  | OP_NUM nat
  | OP_CHECKSIG
  | OP_CHECKSIGVERIFY
  | OP_CHECKSIGADD
  | OP_GREATERTHANOREQUAL
  | OP_VERIFY
  | OP_CHECKSEQUENCEVERIFY

datatype LeafKind = TimeLock | Unbonding | Slashing

text \<open>
  Modelled from the spec: a leaf is its compiled script and leaf version. It also keeps
  the ordered key list of each role its script checks, which is what the witness
  assembler counts slots against. The tree holds the three leaves and the control block
  of each; a \<open>SpendInfo\<close> is one leaf with its control block.
\<close>

record LeafScript =
  kind :: LeafKind
  script :: "opcode list"
  leaf_version :: "8 word"
  covenant_keys :: "PublicKey list"
  validator_keys :: "PublicKey list"

record ControlBlock =
  cb_leaf_version :: "8 word"
  cb_output_parity :: bool
  cb_internal_key :: PublicKey
  cb_merkle_path :: "bytes list"

record SpendInfo =
  RevealedLeaf :: LeafScript
  ControlBlock :: ControlBlock

record ScriptTree =
  internal_key :: PublicKey
  timelock_leaf :: LeafScript
  unbonding_leaf :: LeafScript
  slashing_leaf :: LeafScript
  timelock_proof :: ControlBlock
  unbonding_proof :: ControlBlock
  slashing_proof :: ControlBlock

text \<open>A taproot output script: \<open>OP_1\<close> and the 32-byte output key.\<close>

datatype PkScript = PayToTaproot bytes

record TxOut =
  PkScript :: PkScript
  Value :: int

record StakingInfo =
  StakingOutput :: TxOut
  tree :: ScriptTree

text \<open>
  The cryptographic primitives are parameters: Schnorr verification of a signature by
  a key over a message, the tapscript signature hash of a spending transaction for the
  output it spends and the hash of the leaf it reveals, and the tagged hashes and key
  tweak of the taproot commitment, with the unspendable internal key.
\<close>

record SpendTx =
  Version :: "32 word"
  Sequence :: "32 word"
  Payload :: bytes

record crypto =
  schnorr_verify :: "PublicKey \<Rightarrow> bytes \<Rightarrow> Signature \<Rightarrow> bool"
  sighash :: "SpendTx \<Rightarrow> TxOut \<Rightarrow> bytes \<Rightarrow> bytes"
  tapleaf_hash :: "8 word \<Rightarrow> opcode list \<Rightarrow> bytes"
  tapbranch_hash :: "bytes \<Rightarrow> bytes \<Rightarrow> bytes"
  taptweak :: "PublicKey \<Rightarrow> bytes \<Rightarrow> bool \<times> bytes"
  unspendable_key :: PublicKey

subsection \<open>Script Template Builder (spec section 4.1)\<close>

text \<open>
  Modelled from the spec: one generator of a threshold check over a key list, in the
  accumulate-and-compare pattern: the first key is checked with \<open>OP_CHECKSIG\<close>, every
  further key adds 0 or 1 to the count with \<open>OP_CHECKSIGADD\<close>, and the count is
  compared with the threshold.
\<close>

definition thresholdScript :: "PublicKey list \<Rightarrow> nat \<Rightarrow> opcode list" where
  "thresholdScript keys k =
     (case keys of
        [] \<Rightarrow> []
      | key # others \<Rightarrow>
          [OP_DATA key, OP_CHECKSIG]
          @ concat (map (\<lambda>pk. [OP_DATA pk, OP_CHECKSIGADD]) others)
          @ [OP_NUM k, OP_GREATERTHANOREQUAL])"

definition TapscriptLeafVersion :: "8 word" where
  "TapscriptLeafVersion = 0xc0"

text \<open>
  Modelled from the spec: the three leaves. The staker's mandatory signature is checked
  first, so it is the top of the witness stack; the keys of a role are then checked from
  the top slot down, which is the reverse of the slot order.
\<close>

definition timeLockLeaf :: "PublicKey \<Rightarrow> 16 word \<Rightarrow> LeafScript" where
  "timeLockLeaf stakerKey lockTime =
     \<lparr> kind = TimeLock,
       script = [OP_DATA stakerKey, OP_CHECKSIGVERIFY, OP_NUM (unat lockTime),
                 OP_CHECKSEQUENCEVERIFY],
       leaf_version = TapscriptLeafVersion,
       covenant_keys = [], validator_keys = [] \<rparr>"

definition unbondingLeaf :: "PublicKey \<Rightarrow> PublicKey list \<Rightarrow> nat \<Rightarrow> LeafScript" where
  "unbondingLeaf stakerKey covenantKeys k =
     \<lparr> kind = Unbonding,
       script = [OP_DATA stakerKey, OP_CHECKSIGVERIFY]
                @ thresholdScript (rev (sortKeys covenantKeys)) k,
       leaf_version = TapscriptLeafVersion,
       covenant_keys = sortKeys covenantKeys, validator_keys = [] \<rparr>"

definition slashingLeaf ::
  "PublicKey \<Rightarrow> PublicKey list \<Rightarrow> PublicKey list \<Rightarrow> nat \<Rightarrow> LeafScript" where
  "slashingLeaf stakerKey validatorKeys covenantKeys k =
     \<lparr> kind = Slashing,
       script = [OP_DATA stakerKey, OP_CHECKSIGVERIFY]
                @ thresholdScript (rev (sortKeys validatorKeys)) 1 @ [OP_VERIFY]
                @ thresholdScript (rev (sortKeys covenantKeys)) k,
       leaf_version = TapscriptLeafVersion,
       covenant_keys = sortKeys covenantKeys, validator_keys = sortKeys validatorKeys \<rparr>"

subsection \<open>Taproot Tree Assembler (spec section 4.2)\<close>

text \<open>A branch hashes its two children in lexicographic order (BIP-341).\<close>

definition tapBranch :: "crypto \<Rightarrow> bytes \<Rightarrow> bytes \<Rightarrow> bytes" where
  "tapBranch cr a b =
     (if Compare a b \<le> 0 then tapbranch_hash cr a b else tapbranch_hash cr b a)"

definition leafHash :: "crypto \<Rightarrow> LeafScript \<Rightarrow> bytes" where
  "leafHash cr leaf = tapleaf_hash cr (leaf_version leaf) (script leaf)"

text \<open>
  Modelled from the spec: the tree of section 4.2 under the unspendable internal key,
  with one control block per leaf. The spec fixes no tree shape beyond its being the
  same at every call; here the time-lock and unbonding leaves are paired and the
  slashing leaf joins them at the root.
\<close>

definition treeRoot :: "crypto \<Rightarrow> LeafScript \<Rightarrow> LeafScript \<Rightarrow> LeafScript \<Rightarrow> bytes" where
  "treeRoot cr tlLeaf ubLeaf slLeaf =
     tapBranch cr (tapBranch cr (leafHash cr tlLeaf) (leafHash cr ubLeaf)) (leafHash cr slLeaf)"

definition controlBlock :: "crypto \<Rightarrow> bytes \<Rightarrow> LeafScript \<Rightarrow> bytes list \<Rightarrow> ControlBlock" where
  "controlBlock cr root leaf path =
     \<lparr> cb_leaf_version = leaf_version leaf,
       cb_output_parity = fst (taptweak cr (unspendable_key cr) root),
       cb_internal_key = unspendable_key cr,
       cb_merkle_path = path \<rparr>"

definition assembleTree :: "crypto \<Rightarrow> LeafScript \<Rightarrow> LeafScript \<Rightarrow> LeafScript \<Rightarrow> ScriptTree" where
  "assembleTree cr tlLeaf ubLeaf slLeaf =
     (let root = treeRoot cr tlLeaf ubLeaf slLeaf in
      \<lparr> internal_key = unspendable_key cr,
        timelock_leaf = tlLeaf, unbonding_leaf = ubLeaf, slashing_leaf = slLeaf,
        timelock_proof = controlBlock cr root tlLeaf [leafHash cr ubLeaf, leafHash cr slLeaf],
        unbonding_proof = controlBlock cr root ubLeaf [leafHash cr tlLeaf, leafHash cr slLeaf],
        slashing_proof = controlBlock cr root slLeaf [tapBranch cr (leafHash cr tlLeaf) (leafHash cr ubLeaf)] \<rparr>)"

definition outputScript :: "crypto \<Rightarrow> LeafScript \<Rightarrow> LeafScript \<Rightarrow> LeafScript \<Rightarrow> PkScript" where
  "outputScript cr tlLeaf ubLeaf slLeaf =
     PayToTaproot (snd (taptweak cr (unspendable_key cr) (treeRoot cr tlLeaf ubLeaf slLeaf)))"

datatype BuildError = InvalidThreshold | EmptyKeySet | KeySerializationError

text \<open>
  Modelled from the spec: the error conditions of section 4.1, then the three leaves and
  the output that commits to them, of value \<open>staking_amount\<close>.
\<close>

definition BuildStakingInfo :: "crypto \<Rightarrow> KeySet \<Rightarrow> LockParams \<Rightarrow> BuildError + StakingInfo" where
  "BuildStakingInfo cr ks lp =
     (if covenant_threshold ks = 0 \<or> covenant_threshold ks > length (covenant ks)
      then Inl InvalidThreshold
      else if validators ks = [] \<or> covenant ks = [] then Inl EmptyKeySet
      else if \<exists>key \<in> set (staker ks # validators ks @ covenant ks). length key \<noteq> 32
      then Inl KeySerializationError
      else
        let tlLeaf = timeLockLeaf (staker ks) (timelock_blocks lp);
            ubLeaf = unbondingLeaf (staker ks) (covenant ks) (covenant_threshold ks);
            slLeaf = slashingLeaf (staker ks) (validators ks) (covenant ks) (covenant_threshold ks)
        in Inr \<lparr> StakingOutput =
                   \<lparr> PkScript = outputScript cr tlLeaf ubLeaf slLeaf, Value = staking_amount lp \<rparr>,
                 tree = assembleTree cr tlLeaf ubLeaf slLeaf \<rparr>)"

subsection \<open>Staking Output Descriptor: lookups\<close>

text \<open>
  Modelled from the spec: the output script and the per-path \<open>SpendInfo\<close>, each a
  lookup in the one tree of the descriptor.
\<close>

definition GetPkScript :: "StakingInfo \<Rightarrow> PkScript" where
  "GetPkScript info = PkScript (StakingOutput info)"

definition TimeLockPathSpendInfo :: "StakingInfo \<Rightarrow> SpendInfo" where
  "TimeLockPathSpendInfo info =
     \<lparr> RevealedLeaf = timelock_leaf (tree info), ControlBlock = timelock_proof (tree info) \<rparr>"

definition UnbondingPathSpendInfo :: "StakingInfo \<Rightarrow> SpendInfo" where
  "UnbondingPathSpendInfo info =
     \<lparr> RevealedLeaf = unbonding_leaf (tree info), ControlBlock = unbonding_proof (tree info) \<rparr>"

definition SlashingPathSpendInfo :: "StakingInfo \<Rightarrow> SpendInfo" where
  "SlashingPathSpendInfo info =
     \<lparr> RevealedLeaf = slashing_leaf (tree info), ControlBlock = slashing_proof (tree info) \<rparr>"

subsection \<open>Witness Assembler (spec section 4.4)\<close>

text \<open>
  Modelled from the spec: an element of the witness stack is a byte string (a
  signature, or the zero-length element of an absent one), the revealed leaf script, or
  the control block. The last two are kept in structured form; their byte serialization
  is not modelled.
\<close>

datatype WitnessElem =
    Data bytes
  | ScriptElem "opcode list"
  | ControlBlockElem ControlBlock

datatype AssemblyError = SignatureCountMismatch

text \<open>A slot holds a signature or nothing; an empty slot becomes the empty element.\<close>

definition slotBytes :: "Signature option \<Rightarrow> bytes" where
  "slotBytes slot = (case slot of None \<Rightarrow> [] | Some sig \<Rightarrow> sig)"

definition slotElem :: "Signature option \<Rightarrow> WitnessElem" where
  "slotElem slot = Data (slotBytes slot)"

definition CreateWitness :: "SpendInfo \<Rightarrow> WitnessElem list \<Rightarrow> WitnessElem list" where
  "CreateWitness si signatures =
     signatures @ [ScriptElem (script (RevealedLeaf si)), ControlBlockElem (ControlBlock si)]"

text \<open>
  Modelled from the spec: the three assemblers, each giving the signature elements in
  slot order, then the staker signature, the leaf script and the control block. A slot
  list whose length differs from the key count of its role is refused; nothing else is
  checked, the threshold in particular.
\<close>

definition CreateTimeLockPathWitness :: "SpendInfo \<Rightarrow> Signature \<Rightarrow> AssemblyError + WitnessElem list" where
  "CreateTimeLockPathWitness si stakerSig = Inr (CreateWitness si [Data stakerSig])"

definition CreateUnbondingPathWitness ::
  "SpendInfo \<Rightarrow> Signature option list \<Rightarrow> Signature \<Rightarrow> AssemblyError + WitnessElem list" where
  "CreateUnbondingPathWitness si covenantSigs stakerSig =
     (if length covenantSigs \<noteq> length (covenant_keys (RevealedLeaf si))
      then Inl SignatureCountMismatch
      else Inr (CreateWitness si (map slotElem covenantSigs @ [Data stakerSig])))"

definition CreateSlashingPathWitness ::
  "SpendInfo \<Rightarrow> Signature option list \<Rightarrow> Signature option list \<Rightarrow> Signature
     \<Rightarrow> AssemblyError + WitnessElem list" where
  "CreateSlashingPathWitness si covenantSigs validatorSigs stakerSig =
     (if length covenantSigs \<noteq> length (covenant_keys (RevealedLeaf si))
         \<or> length validatorSigs \<noteq> length (validator_keys (RevealedLeaf si))
      then Inl SignatureCountMismatch
      else Inr (CreateWitness si
                 (map slotElem covenantSigs @ map slotElem validatorSigs @ [Data stakerSig])))"

section \<open>The script interpreter\<close>

text \<open>
  The tests judge a witness with \<open>txscript.NewEngine(...).Execute()\<close> of btcd under
  the standard verification flags. This section models that engine for a taproot
  script-path spend of one input, restricted to the opcodes of the three leaves, after
  BIP-341 (commitment), BIP-342 (signature opcodes, limits) and BIP-112 (relative lock
  time). The limit of 1000 stack elements, on the initial stack and after every opcode,
  and the limit of 520 bytes per element are part of the model. The annex is left out
  (the last witness element is always the control block), as are the width of numbers
  (the numbers these scripts read are counts below the stack limit and the 16-bit lock
  time) and the signature operations budget (a signature element that passes its check
  is 64 or 65 bytes long, which pays for the check).
\<close>

subsection \<open>Script numbers and truth values\<close>

function le_bytes :: "nat \<Rightarrow> bytes" where
  "le_bytes n = (if n = 0 then [] else word_of_nat (n mod 256) # le_bytes (n div 256))"
  by pat_completeness auto
termination
  by (relation "measure id") auto

fun le_value :: "bytes \<Rightarrow> nat" where
  "le_value [] = 0"
| "le_value (b # bs) = unat b + 256 * le_value bs"

text \<open>
  A script number is little-endian sign-magnitude: the top bit of the last byte is the
  sign, and a magnitude whose top bit is taken gets one more byte.
\<close>

definition scriptNum :: "int \<Rightarrow> bytes" where
  "scriptNum i =
     (if i = 0 then []
      else
        let bs = le_bytes (nat \<bar>i\<bar>) in
        if 128 \<le> unat (last bs) then bs @ [if i < 0 then 0x80 else 0]
        else if i < 0 then butlast bs @ [last bs + 0x80]
        else bs)"

definition scriptNumValue :: "bytes \<Rightarrow> int" where
  "scriptNumValue bs =
     (if bs = [] then 0
      else if 128 \<le> unat (last bs) then - int (le_value (butlast bs @ [last bs - 0x80]))
      else int (le_value bs))"

text \<open>A byte string is true unless every byte is zero, or it is a negative zero.\<close>

fun castToBool :: "bytes \<Rightarrow> bool" where
  "castToBool [] = False"
| "castToBool [b] = (b \<noteq> 0 \<and> b \<noteq> 0x80)"
| "castToBool (b # bs) = (b \<noteq> 0 \<or> castToBool bs)"

definition fromBool :: "bool \<Rightarrow> bytes" where
  "fromBool b = (if b then [1] else [])"

subsection \<open>Limits (BIP-342)\<close>

definition MaxStackSize :: nat where
  "MaxStackSize = 1000"

definition MaxScriptElementSize :: nat where
  "MaxScriptElementSize = 520"

definition stackWithinLimits :: "bytes list \<Rightarrow> bool" where
  "stackWithinLimits st \<longleftrightarrow>
     length st \<le> MaxStackSize \<and> list_all (\<lambda>e. length e \<le> MaxScriptElementSize) st"

subsection \<open>Signature checks (BIP-342)\<close>

text \<open>
  A non-empty signature element passes for a key when it is 64 or 65 bytes long and
  verifies over the signature hash of the spend for the leaf (BIP-341).
\<close>

definition signatureValid ::
  "crypto \<Rightarrow> SpendTx \<Rightarrow> TxOut \<Rightarrow> bytes \<Rightarrow> PublicKey \<Rightarrow> Signature \<Rightarrow> bool" where
  "signatureValid cr tx prevOut leafhash pk sig \<longleftrightarrow>
     (length sig = 64 \<or> length sig = 65)
     \<and> schnorr_verify cr pk (sighash cr tx prevOut leafhash) sig"

text \<open>
  The result of checking one signature element against one key: \<open>None\<close> ends the
  script in failure. An empty element is an absent signature and counts as false
  without failing; a non-empty element must be a valid signature of the key, or the
  script fails. A key that is not 32 bytes long fails (an empty key by consensus, any
  other length by the standard flags).
\<close>

definition checkSig ::
  "crypto \<Rightarrow> SpendTx \<Rightarrow> TxOut \<Rightarrow> bytes \<Rightarrow> PublicKey \<Rightarrow> Signature \<Rightarrow> bool option" where
  "checkSig cr tx prevOut leafhash pk sig =
     (if length pk \<noteq> 32 then None
      else if sig = [] then Some False
      else if signatureValid cr tx prevOut leafhash pk sig then Some True
      else None)"

subsection \<open>Relative lock time (BIP-112)\<close>

definition SequenceLockTimeDisabled :: int where
  "SequenceLockTimeDisabled = 2 ^ 31"

definition SequenceLockTimeIsSeconds :: int where
  "SequenceLockTimeIsSeconds = 2 ^ 22"

definition SequenceLockTimeMask :: int where
  "SequenceLockTimeMask = 0x0000ffff"

definition verifyLockTime :: "int \<Rightarrow> int \<Rightarrow> int \<Rightarrow> bool" where
  "verifyLockTime txLockTime threshold lockTime =
     (if \<not> ((txLockTime < threshold \<and> lockTime < threshold)
             \<or> (txLockTime \<ge> threshold \<and> lockTime \<ge> threshold)) then False
      else if lockTime > txLockTime then False
      else True)"

definition checkSequenceVerify :: "SpendTx \<Rightarrow> int \<Rightarrow> bool" where
  "checkSequenceVerify tx stackSequence =
     (if stackSequence < 0 then False
      else if stackSequence AND SequenceLockTimeDisabled \<noteq> 0 then True
      else if unat (Version tx) < 2 then False
      else
        let txSequence = uint (Sequence tx) in
        if txSequence AND SequenceLockTimeDisabled \<noteq> 0 then False
        else
          let lockTimeMask = SequenceLockTimeIsSeconds OR SequenceLockTimeMask in
          verifyLockTime (txSequence AND lockTimeMask) SequenceLockTimeIsSeconds
            (stackSequence AND lockTimeMask))"

subsection \<open>Execution\<close>

text \<open>
  The stack is a list with its top at the head. One opcode either fails (\<open>None\<close>) or
  leaves a new stack; a push of more than 520 bytes fails. After every opcode the stack
  must hold at most 1000 elements.
\<close>

fun step ::
  "(PublicKey \<Rightarrow> Signature \<Rightarrow> bool option) \<Rightarrow> SpendTx \<Rightarrow> opcode \<Rightarrow> bytes list
     \<Rightarrow> bytes list option" where
  "step chk tx (OP_DATA d) st =
     (if MaxScriptElementSize < length d then None else Some (d # st))"
| "step chk tx (OP_NUM n) st = Some (scriptNum (int n) # st)"
| "step chk tx OP_CHECKSIG st =
     (case st of
        pk # sig # r \<Rightarrow> map_option (\<lambda>b. fromBool b # r) (chk pk sig)
      | _ \<Rightarrow> None)"
| "step chk tx OP_CHECKSIGVERIFY st =
     (case st of
        pk # sig # r \<Rightarrow> (if chk pk sig = Some True then Some r else None)
      | _ \<Rightarrow> None)"
| "step chk tx OP_CHECKSIGADD st =
     (case st of
        pk # n # sig # r \<Rightarrow>
          map_option (\<lambda>b. scriptNum (scriptNumValue n + (if b then 1 else 0)) # r) (chk pk sig)
      | _ \<Rightarrow> None)"
| "step chk tx OP_GREATERTHANOREQUAL st =
     (case st of
        b # a # r \<Rightarrow> Some (fromBool (scriptNumValue a \<ge> scriptNumValue b) # r)
      | _ \<Rightarrow> None)"
| "step chk tx OP_VERIFY st =
     (case st of
        x # r \<Rightarrow> (if castToBool x then Some r else None)
      | _ \<Rightarrow> None)"
| "step chk tx OP_CHECKSEQUENCEVERIFY st =
     (case st of
        x # r \<Rightarrow> (if checkSequenceVerify tx (scriptNumValue x) then Some (x # r) else None)
      | _ \<Rightarrow> None)"

fun exec ::
  "(PublicKey \<Rightarrow> Signature \<Rightarrow> bool option) \<Rightarrow> SpendTx \<Rightarrow> opcode list \<Rightarrow> bytes list
     \<Rightarrow> bytes list option" where
  "exec chk tx [] st = Some st"
| "exec chk tx (op # ops) st =
     (case step chk tx op st of
        None \<Rightarrow> None
      | Some st' \<Rightarrow> if MaxStackSize < length st' then None else exec chk tx ops st')"

subsection \<open>The engine: commitment, then the script\<close>

definition merkleRoot :: "crypto \<Rightarrow> bytes \<Rightarrow> bytes list \<Rightarrow> bytes" where
  "merkleRoot cr leafhash path = foldl (tapBranch cr) leafhash path"

fun initialStack :: "WitnessElem list \<Rightarrow> bytes list option" where
  "initialStack [] = Some []"
| "initialStack (Data d # ws) = map_option ((#) d) (initialStack ws)"
| "initialStack (ScriptElem s # ws) = None"
| "initialStack (ControlBlockElem c # ws) = None"

text \<open>
  The last witness element is the control block and the one before it the script; the
  elements before them are the initial stack, the last of them on top. The script must
  be committed to by the output key, the initial stack must be within the limits, and
  the script must leave exactly one element, a true one.
\<close>

definition EngineExecute :: "crypto \<Rightarrow> TxOut \<Rightarrow> SpendTx \<Rightarrow> WitnessElem list \<Rightarrow> bool" where
  "EngineExecute cr prevOut tx witness =
     (case rev witness of
        ControlBlockElem cb # ScriptElem scr # args \<Rightarrow>
          (case (PkScript prevOut, initialStack args) of
             (PayToTaproot outputKey, Some st) \<Rightarrow>
               let leafhash = tapleaf_hash cr (cb_leaf_version cb) scr in
               cb_leaf_version cb = TapscriptLeafVersion
               \<and> taptweak cr (cb_internal_key cb) (merkleRoot cr leafhash (cb_merkle_path cb))
                   = (cb_output_parity cb, outputKey)
               \<and> stackWithinLimits st
               \<and> (case exec (checkSig cr tx prevOut leafhash) tx scr st of
                      Some [x] \<Rightarrow> castToBool x
                    | _ \<Rightarrow> False)
           | _ \<Rightarrow> False)
      | _ \<Rightarrow> False)"

text \<open>
  A signature is valid for a key on a spend path when it passes the interpreter's check
  for the staking output and the revealed leaf of that path.
\<close>

definition validSignature ::
  "crypto \<Rightarrow> SpendTx \<Rightarrow> StakingInfo \<Rightarrow> SpendInfo \<Rightarrow> PublicKey \<Rightarrow> Signature \<Rightarrow> bool" where
  "validSignature cr tx info si pk sig \<longleftrightarrow>
     signatureValid cr tx (StakingOutput info) (leafHash cr (RevealedLeaf si)) pk sig"

subsection \<open>Counting the signatures of a slot list\<close>

text \<open>
  For stating the threshold properties: the slots that hold a signature, the slots that
  hold a signature valid for the key of their position, and whether every signature
  held is valid for the key of its position.
\<close>

definition presentCount :: "Signature option list \<Rightarrow> nat" where
  "presentCount slots = length (filter (\<lambda>slot. slot \<noteq> None) slots)"

definition slotValid :: "(PublicKey \<Rightarrow> Signature \<Rightarrow> bool) \<Rightarrow> PublicKey \<times> Signature option \<Rightarrow> bool" where
  "slotValid valid p = (case snd p of None \<Rightarrow> False | Some sig \<Rightarrow> valid (fst p) sig)"

definition validCount ::
  "(PublicKey \<Rightarrow> Signature \<Rightarrow> bool) \<Rightarrow> PublicKey list \<Rightarrow> Signature option list \<Rightarrow> nat" where
  "validCount valid keys slots = length (filter (slotValid valid) (zip keys slots))"

definition allPresentValid ::
  "(PublicKey \<Rightarrow> Signature \<Rightarrow> bool) \<Rightarrow> PublicKey list \<Rightarrow> Signature option list \<Rightarrow> bool" where
  "allPresentValid valid keys slots =
     list_all (\<lambda>p. snd p = None \<or> slotValid valid p) (zip keys slots)"

subsection \<open>An instance for running examples\<close>

text \<open>
  Stand-ins for the cryptographic parameters, for evaluating the model on concrete
  inputs: a key is 32 equal bytes, the signature of a key is the key twice (64 bytes),
  and the hashes only rearrange their input. Nothing is proved from their shape; the
  theorems hold for every choice of the parameters.
\<close>

definition example_key :: "8 word \<Rightarrow> PublicKey" where
  "example_key c = replicate 32 c"

definition example_sign :: "PublicKey \<Rightarrow> Signature" where
  "example_sign pk = pk @ pk"

definition example_crypto :: crypto where
  "example_crypto =
     \<lparr> schnorr_verify = (\<lambda>pk msg sig. sig = example_sign pk),
       sighash = (\<lambda>tx prevOut leafhash. leafhash),
       tapleaf_hash = (\<lambda>version scr. [version, word_of_nat (length scr)]),
       tapbranch_hash = (\<lambda>a b. a @ b),
       taptweak = (\<lambda>key root. (False, root)),
       unspendable_key = replicate 32 0 \<rparr>"

definition example_keys :: KeySet where
  "example_keys =
     \<lparr> staker = example_key 9,
       validators = [example_key 7, example_key 8],
       covenant = [example_key 3, example_key 1, example_key 5, example_key 2, example_key 4],
       covenant_threshold = 3 \<rparr>"

definition example_lock :: LockParams where
  "example_lock = \<lparr> staking_amount = 2000000000, timelock_blocks = 5, network = MainNet \<rparr>"

definition example_tx :: SpendTx where
  "example_tx = \<lparr> Version = 2, Sequence = 5, Payload = [] \<rparr>"

text \<open>
  The staking output of the example keys (the build succeeds, see
  \<open>BuildStakingInfo_example_info\<close>), and a slot list for it in which the signature of
  the covenant key \<open>example_key 1\<close> also sits in the slot of \<open>example_key 4\<close>: three
  slots hold a signature valid for their key, one holds a signature that is not.
\<close>

definition example_info :: StakingInfo where
  "example_info = projr (BuildStakingInfo example_crypto example_keys example_lock)"

definition example_misplaced_slots :: "Signature option list" where
  "example_misplaced_slots =
     [None, Some (example_sign (example_key 1)), Some (example_sign (example_key 3)),
      Some (example_sign (example_key 2)), Some (example_sign (example_key 1))]"

section \<open>Hooks: order and short-circuit\<close>

lemma Multi_AfterEpochBegins_append:
  "Multi_AfterEpochBegins (xs @ ys) ctx epoch =
     (case Multi_AfterEpochBegins xs ctx epoch of
        (Some err, ctx') \<Rightarrow> (Some err, ctx')
      | (None, ctx') \<Rightarrow> Multi_AfterEpochBegins ys ctx' epoch)"
  by (induction xs arbitrary: ctx) (auto split: prod.splits option.splits)

lemma Multi_AfterEpochEnds_append:
  "Multi_AfterEpochEnds (xs @ ys) ctx epoch =
     (case Multi_AfterEpochEnds xs ctx epoch of
        (Some err, ctx') \<Rightarrow> (Some err, ctx')
      | (None, ctx') \<Rightarrow> Multi_AfterEpochEnds ys ctx' epoch)"
  by (induction xs arbitrary: ctx) (auto split: prod.splits option.splits)

lemma Multi_AfterEpochBegins_fail_at:
  assumes "i < length h"
    and "Multi_AfterEpochBegins (take i h) ctx epoch = (None, c)"
    and "AfterEpochBegins (h ! i) c epoch = (Some err, c')"
  shows "Multi_AfterEpochBegins (take (Suc i) h @ rest) ctx epoch = (Some err, c')"
proof -
  have "take (Suc i) h @ rest = take i h @ (h ! i # rest)"
    using assms(1) by (simp add: take_Suc_conv_app_nth)
  then show ?thesis
    using assms(2,3) by (simp add: Multi_AfterEpochBegins_append)
qed

lemma Multi_AfterEpochEnds_fail_at:
  assumes "i < length h"
    and "Multi_AfterEpochEnds (take i h) ctx epoch = (None, c)"
    and "AfterEpochEnds (h ! i) c epoch = (Some err, c')"
  shows "Multi_AfterEpochEnds (take (Suc i) h @ rest) ctx epoch = (Some err, c')"
proof -
  have "take (Suc i) h @ rest = take i h @ (h ! i # rest)"
    using assms(1) by (simp add: take_Suc_conv_app_nth)
  then show ?thesis
    using assms(2,3) by (simp add: Multi_AfterEpochEnds_append)
qed

lemma Multi_AfterEpochBegins_step:
  assumes "i < length h"
    and "Multi_AfterEpochBegins (take i h) ctx epoch = (None, c)"
  shows "Multi_AfterEpochBegins (take (Suc i) h) ctx epoch = AfterEpochBegins (h ! i) c epoch"
  using assms
  by (simp add: take_Suc_conv_app_nth Multi_AfterEpochBegins_append
      split: prod.splits option.splits)

lemma Multi_AfterEpochEnds_step:
  assumes "i < length h"
    and "Multi_AfterEpochEnds (take i h) ctx epoch = (None, c)"
  shows "Multi_AfterEpochEnds (take (Suc i) h) ctx epoch = AfterEpochEnds (h ! i) c epoch"
  using assms
  by (simp add: take_Suc_conv_app_nth Multi_AfterEpochEnds_append
      split: prod.splits option.splits)

lemma Multi_AfterEpochBegins_all_ok:
  assumes "\<And>i c. i < length h \<Longrightarrow> Multi_AfterEpochBegins (take i h) ctx epoch = (None, c)
             \<Longrightarrow> fst (AfterEpochBegins (h ! i) c epoch) = None"
  shows "n \<le> length h \<Longrightarrow> fst (Multi_AfterEpochBegins (take n h) ctx epoch) = None"
proof (induction n)
  case 0
  then show ?case by simp
next
  case (Suc n)
  then have n: "n < length h" and ih: "fst (Multi_AfterEpochBegins (take n h) ctx epoch) = None"
    by simp_all
  obtain c where c: "Multi_AfterEpochBegins (take n h) ctx epoch = (None, c)"
    using ih by (cases "Multi_AfterEpochBegins (take n h) ctx epoch") auto
  show ?case
    using Multi_AfterEpochBegins_step [OF n c] assms [OF n c] by simp
qed

lemma Multi_AfterEpochEnds_all_ok:
  assumes "\<And>i c. i < length h \<Longrightarrow> Multi_AfterEpochEnds (take i h) ctx epoch = (None, c)
             \<Longrightarrow> fst (AfterEpochEnds (h ! i) c epoch) = None"
  shows "n \<le> length h \<Longrightarrow> fst (Multi_AfterEpochEnds (take n h) ctx epoch) = None"
proof (induction n)
  case 0
  then show ?case by simp
next
  case (Suc n)
  then have n: "n < length h" and ih: "fst (Multi_AfterEpochEnds (take n h) ctx epoch) = None"
    by simp_all
  obtain c where c: "Multi_AfterEpochEnds (take n h) ctx epoch = (None, c)"
    using ih by (cases "Multi_AfterEpochEnds (take n h) ctx epoch") auto
  show ?case
    using Multi_AfterEpochEnds_step [OF n c] assms [OF n c] by simp
qed

text \<open>
  Claim C10. \<open>MultiEpochingHooks.AfterEpochBegins\<close> and \<open>AfterEpochEnds\<close> invoke
  the hooks in array order and stop at the first failure. Written over the first \<open>i\<close>
  iterations of the loop (\<open>take i h\<close>), for \<open>AfterEpochBegins\<close> and then for
  \<open>AfterEpochEnds\<close>: iteration \<open>i\<close> invokes hook \<open>i\<close> on the context left by the
  hooks before it; if hook \<open>i\<close> is the first to return an error, that error and the
  context hook \<open>i\<close> left are the result, whatever hooks follow index \<open>i\<close>, so none of
  them is invoked; if every hook succeeds where it is invoked, the result is nil.
\<close>

theorem MultiEpochingHooks_array_order_short_circuit:
  "(i < length h \<and> Multi_AfterEpochBegins (take i h) ctx epoch = (None, c) \<longrightarrow>
      Multi_AfterEpochBegins (take (Suc i) h) ctx epoch = AfterEpochBegins (h ! i) c epoch)
   \<and> (i < length h \<and> Multi_AfterEpochBegins (take i h) ctx epoch = (None, c)
        \<and> AfterEpochBegins (h ! i) c epoch = (Some err, c') \<longrightarrow>
      Multi_AfterEpochBegins h ctx epoch = (Some err, c')
      \<and> (\<forall>rest. Multi_AfterEpochBegins (take (Suc i) h @ rest) ctx epoch = (Some err, c')))
   \<and> ((\<forall>j d. j < length h \<and> Multi_AfterEpochBegins (take j h) ctx epoch = (None, d) \<longrightarrow>
           fst (AfterEpochBegins (h ! j) d epoch) = None) \<longrightarrow>
      fst (Multi_AfterEpochBegins h ctx epoch) = None)
   \<and> (i < length h \<and> Multi_AfterEpochEnds (take i h) ctx epoch = (None, c) \<longrightarrow>
      Multi_AfterEpochEnds (take (Suc i) h) ctx epoch = AfterEpochEnds (h ! i) c epoch)
   \<and> (i < length h \<and> Multi_AfterEpochEnds (take i h) ctx epoch = (None, c)
        \<and> AfterEpochEnds (h ! i) c epoch = (Some err, c') \<longrightarrow>
      Multi_AfterEpochEnds h ctx epoch = (Some err, c')
      \<and> (\<forall>rest. Multi_AfterEpochEnds (take (Suc i) h @ rest) ctx epoch = (Some err, c')))
   \<and> ((\<forall>j d. j < length h \<and> Multi_AfterEpochEnds (take j h) ctx epoch = (None, d) \<longrightarrow>
           fst (AfterEpochEnds (h ! j) d epoch) = None) \<longrightarrow>
      fst (Multi_AfterEpochEnds h ctx epoch) = None)"
proof -
  have b1: "i < length h \<and> Multi_AfterEpochBegins (take i h) ctx epoch = (None, c) \<longrightarrow>
      Multi_AfterEpochBegins (take (Suc i) h) ctx epoch = AfterEpochBegins (h ! i) c epoch"
    by (intro impI, elim conjE) (rule Multi_AfterEpochBegins_step)
  have b2: "i < length h \<and> Multi_AfterEpochBegins (take i h) ctx epoch = (None, c)
        \<and> AfterEpochBegins (h ! i) c epoch = (Some err, c') \<longrightarrow>
      Multi_AfterEpochBegins h ctx epoch = (Some err, c')
      \<and> (\<forall>rest. Multi_AfterEpochBegins (take (Suc i) h @ rest) ctx epoch = (Some err, c'))"
  proof (intro impI, elim conjE)
    assume a: "i < length h" "Multi_AfterEpochBegins (take i h) ctx epoch = (None, c)"
      "AfterEpochBegins (h ! i) c epoch = (Some err, c')"
    have r: "Multi_AfterEpochBegins (take (Suc i) h @ rest) ctx epoch = (Some err, c')" for rest
      by (rule Multi_AfterEpochBegins_fail_at [OF a])
    from r [of "drop (Suc i) h"] have "Multi_AfterEpochBegins h ctx epoch = (Some err, c')"
      by simp
    with r show "Multi_AfterEpochBegins h ctx epoch = (Some err, c')
      \<and> (\<forall>rest. Multi_AfterEpochBegins (take (Suc i) h @ rest) ctx epoch = (Some err, c'))"
      by simp
  qed
  have b3: "(\<forall>j d. j < length h \<and> Multi_AfterEpochBegins (take j h) ctx epoch = (None, d) \<longrightarrow>
           fst (AfterEpochBegins (h ! j) d epoch) = None) \<longrightarrow>
      fst (Multi_AfterEpochBegins h ctx epoch) = None"
  proof
    assume a: "\<forall>j d. j < length h \<and> Multi_AfterEpochBegins (take j h) ctx epoch = (None, d) \<longrightarrow>
           fst (AfterEpochBegins (h ! j) d epoch) = None"
    have "fst (Multi_AfterEpochBegins (take (length h) h) ctx epoch) = None"
      by (rule Multi_AfterEpochBegins_all_ok) (use a in auto)
    then show "fst (Multi_AfterEpochBegins h ctx epoch) = None" by simp
  qed
  have e1: "i < length h \<and> Multi_AfterEpochEnds (take i h) ctx epoch = (None, c) \<longrightarrow>
      Multi_AfterEpochEnds (take (Suc i) h) ctx epoch = AfterEpochEnds (h ! i) c epoch"
    by (intro impI, elim conjE) (rule Multi_AfterEpochEnds_step)
  have e2: "i < length h \<and> Multi_AfterEpochEnds (take i h) ctx epoch = (None, c)
        \<and> AfterEpochEnds (h ! i) c epoch = (Some err, c') \<longrightarrow>
      Multi_AfterEpochEnds h ctx epoch = (Some err, c')
      \<and> (\<forall>rest. Multi_AfterEpochEnds (take (Suc i) h @ rest) ctx epoch = (Some err, c'))"
  proof (intro impI, elim conjE)
    assume a: "i < length h" "Multi_AfterEpochEnds (take i h) ctx epoch = (None, c)"
      "AfterEpochEnds (h ! i) c epoch = (Some err, c')"
    have r: "Multi_AfterEpochEnds (take (Suc i) h @ rest) ctx epoch = (Some err, c')" for rest
      by (rule Multi_AfterEpochEnds_fail_at [OF a])
    from r [of "drop (Suc i) h"] have "Multi_AfterEpochEnds h ctx epoch = (Some err, c')"
      by simp
    with r show "Multi_AfterEpochEnds h ctx epoch = (Some err, c')
      \<and> (\<forall>rest. Multi_AfterEpochEnds (take (Suc i) h @ rest) ctx epoch = (Some err, c'))"
      by simp
  qed
  have e3: "(\<forall>j d. j < length h \<and> Multi_AfterEpochEnds (take j h) ctx epoch = (None, d) \<longrightarrow>
           fst (AfterEpochEnds (h ! j) d epoch) = None) \<longrightarrow>
      fst (Multi_AfterEpochEnds h ctx epoch) = None"
  proof
    assume a: "\<forall>j d. j < length h \<and> Multi_AfterEpochEnds (take j h) ctx epoch = (None, d) \<longrightarrow>
           fst (AfterEpochEnds (h ! j) d epoch) = None"
    have "fst (Multi_AfterEpochEnds (take (length h) h) ctx epoch) = None"
      by (rule Multi_AfterEpochEnds_all_ok) (use a in auto)
    then show "fst (Multi_AfterEpochEnds h ctx epoch) = None" by simp
  qed
  show ?thesis by (intro conjI b1 b2 b3 e1 e2 e3)
qed

text \<open>
  Three logging hooks, the second failing: the error of the second hook is returned and
  the log holds the tags of the first two hooks only. Two hooks that succeed: the
  result is nil.
\<close>

theorem MultiEpochingHooks_array_order_short_circuit_witness:
  "Multi_AfterEpochBegins
     [logging_hook 1 None, logging_hook 2 (Some (Error ''boom'')), logging_hook 3 None] [] 7
     = (Some (Error ''boom''), [1, 2])
   \<and> Multi_AfterEpochEnds
     [logging_hook 1 None, logging_hook 2 (Some (Error ''boom'')), logging_hook 3 None] [] 7
     = (Some (Error ''boom''), [101, 102])
   \<and> fst (Multi_AfterEpochBegins [logging_hook 1 None, logging_hook 3 None] [] 7) = None
   \<and> fst (Multi_AfterEpochEnds [logging_hook 1 None, logging_hook 3 None] [] 7) = None"
proof -
  let ?h = "[logging_hook 1 None, logging_hook 2 (Some (Error ''boom'')), logging_hook 3 None]"
  let ?g = "[logging_hook 1 None, logging_hook 3 None]"
  have ok: "fst (AfterEpochBegins (?g ! j) d 7) = None"
    "fst (AfterEpochEnds (?g ! j) d 7) = None" if "j < length ?g" for j d
    using that by (auto simp: logging_hook_def less_Suc_eq)
  have a: "Multi_AfterEpochBegins ?h [] 7 = (Some (Error ''boom''), [1, 2])"
    using MultiEpochingHooks_array_order_short_circuit
      [of 1 ?h "[]" 7 "[1]" "Error ''boom''" "[1, 2]"]
    by (simp add: logging_hook_def)
  have b: "Multi_AfterEpochEnds ?h [] 7 = (Some (Error ''boom''), [101, 102])"
    using MultiEpochingHooks_array_order_short_circuit
      [of 1 ?h "[]" 7 "[101]" "Error ''boom''" "[101, 102]"]
    by (simp add: logging_hook_def)
  have c: "fst (Multi_AfterEpochBegins ?g [] 7) = None"
    using MultiEpochingHooks_array_order_short_circuit [of 0 ?g "[]" 7 "[]" "Error []" "[]"] ok(1)
    by simp
  have d: "fst (Multi_AfterEpochEnds ?g [] 7) = None"
    using MultiEpochingHooks_array_order_short_circuit [of 0 ?g "[]" 7 "[]" "Error []" "[]"] ok(2)
    by simp
  show ?thesis by (intro conjI a b c d)
qed

section \<open>The parsers: when they succeed\<close>

lemma Uint64_gt_MaxUint16:
  "IsUint64 n \<Longrightarrow> (Uint64 n > MaxUint16) = (n > 65535)"
  by (simp add: IsUint64_def Uint64_def MaxUint16_def word_less_alt uint_word_of_int)

lemma ucast_Uint64_small:
  "0 \<le> n \<Longrightarrow> n \<le> 65535 \<Longrightarrow> uint (ucast (Uint64 n) :: 16 word) = n"
  by (simp add: Uint64_def unsigned_ucast_eq uint_word_of_int take_bit_eq_mod)

lemma sint_Int64:
  "IsInt64 n \<Longrightarrow> sint (Int64 n) = n"
  by (simp add: IsInt64_def Int64_def signed_of_int signed_take_bit_int_eq_self)

lemma parseLockTime_unfold:
  "parseLockTime p s =
     (case p s of
        None \<Rightarrow> (0, Some (Error (''invalid staking time: '' @ s)))
      | Some num \<Rightarrow>
          if \<not> IsUint64 num then (0, Some (Error ''staking time is not valid uint''))
          else if num > 65535
            then (0, Some (Error ''staking time is too large. Max is 65535''))
            else (ucast (Uint64 num), None))"
  by (simp add: parseLockTime_def Let_def Uint64_gt_MaxUint16 split: option.splits)

lemma parseLockTime_ok_iff:
  "snd (parseLockTime p s) = None \<longleftrightarrow> (\<exists>n. p s = Some n \<and> 0 \<le> n \<and> n \<le> 65535)"
proof (cases "p s")
  case None
  then show ?thesis by (simp add: parseLockTime_unfold)
next
  case (Some n)
  have "n \<le> 65535 \<Longrightarrow> n < 2 ^ 64" by simp
  then show ?thesis
    using Some by (auto simp add: parseLockTime_unfold IsUint64_def)
qed

lemma parseLockTime_value:
  assumes "p s = Some n" "0 \<le> n" "n \<le> 65535"
  shows "snd (parseLockTime p s) = None \<and> uint (fst (parseLockTime p s)) = n"
proof -
  have u: "IsUint64 n" using assms by (simp add: IsUint64_def)
  show ?thesis
    using assms u ucast_Uint64_small [of n] by (simp add: parseLockTime_unfold)
qed

lemma parseLockTime_error_zero:
  "snd (parseLockTime p s) \<noteq> None \<Longrightarrow> fst (parseLockTime p s) = 0"
  by (simp add: parseLockTime_unfold split: option.splits if_splits)

text \<open>
  Claim C8. \<open>parseLockTime\<close> returns without error exactly when the string reads as an
  integer between 0 and 65535, and then returns that integer; when the string does not
  read as an integer, or the integer is not a \<open>uint64\<close>, or it exceeds 65535, it
  returns an error and 0. "Reads" is what \<open>sdkmath.NewIntFromString\<close> reads, for
  every such reader \<open>p\<close>.
\<close>

theorem parseLockTime_ok_iff_uint16:
  "(snd (parseLockTime p s) = None \<longleftrightarrow> (\<exists>n. p s = Some n \<and> 0 \<le> n \<and> n \<le> 65535))
   \<and> (p s = Some n \<and> 0 \<le> n \<and> n \<le> 65535 \<longrightarrow>
        snd (parseLockTime p s) = None \<and> uint (fst (parseLockTime p s)) = n)
   \<and> (p s = None \<or> (p s = Some n \<and> (\<not> IsUint64 n \<or> n > 65535)) \<longrightarrow>
        snd (parseLockTime p s) \<noteq> None \<and> fst (parseLockTime p s) = 0)"
proof -
  have a: "snd (parseLockTime p s) = None \<longleftrightarrow> (\<exists>n. p s = Some n \<and> 0 \<le> n \<and> n \<le> 65535)"
    by (rule parseLockTime_ok_iff)
  have b: "p s = Some n \<and> 0 \<le> n \<and> n \<le> 65535 \<longrightarrow>
        snd (parseLockTime p s) = None \<and> uint (fst (parseLockTime p s)) = n"
    by (intro impI, elim conjE) (rule parseLockTime_value)
  have c: "p s = None \<or> (p s = Some n \<and> (\<not> IsUint64 n \<or> n > 65535)) \<longrightarrow>
        snd (parseLockTime p s) \<noteq> None \<and> fst (parseLockTime p s) = 0"
  proof
    assume h: "p s = None \<or> (p s = Some n \<and> (\<not> IsUint64 n \<or> n > 65535))"
    then have "\<not> (\<exists>m. p s = Some m \<and> 0 \<le> m \<and> m \<le> 65535)"
      by (auto simp: IsUint64_def)
    then have "snd (parseLockTime p s) \<noteq> None" using a by simp
    then show "snd (parseLockTime p s) \<noteq> None \<and> fst (parseLockTime p s) = 0"
      by (simp add: parseLockTime_error_zero)
  qed
  show ?thesis by (intro conjI a b c)
qed

theorem parseLockTime_ok_iff_uint16_witness:
  "parseLockTime decimal_reader ''65535'' = (65535, None)
   \<and> snd (parseLockTime decimal_reader ''65536'') \<noteq> None
   \<and> fst (parseLockTime decimal_reader ''65536'') = 0
   \<and> snd (parseLockTime decimal_reader ''abc'') \<noteq> None
   \<and> snd (parseLockTime decimal_reader ''-1'') \<noteq> None"
proof -
  have r1: "decimal_reader ''65535'' = Some 65535" by (simp add: decimal_reader_def decimal_magnitude_def digit_of_def)
  have r2: "decimal_reader ''65536'' = Some 65536" by (simp add: decimal_reader_def decimal_magnitude_def digit_of_def)
  have r3: "decimal_reader ''abc'' = None" by (simp add: decimal_reader_def decimal_magnitude_def digit_of_def)
  have r4: "decimal_reader ''-1'' = Some (- 1)" by (simp add: decimal_reader_def decimal_magnitude_def digit_of_def)
  have "uint (fst (parseLockTime decimal_reader ''65535'')) = uint (65535 :: 16 word)"
    and "snd (parseLockTime decimal_reader ''65535'') = None"
    using parseLockTime_ok_iff_uint16 [of decimal_reader "''65535''" 65535] r1 by simp_all
  then have a: "parseLockTime decimal_reader ''65535'' = (65535, None)"
    by (simp add: prod_eq_iff word_uint_eq_iff)
  have b: "snd (parseLockTime decimal_reader ''65536'') \<noteq> None
      \<and> fst (parseLockTime decimal_reader ''65536'') = 0"
    using parseLockTime_ok_iff_uint16 [of decimal_reader "''65536''" 65536] r2 by simp
  have c: "snd (parseLockTime decimal_reader ''abc'') \<noteq> None"
    using parseLockTime_ok_iff_uint16 [of decimal_reader "''abc''" 0] r3 by simp
  have d: "snd (parseLockTime decimal_reader ''-1'') \<noteq> None"
    using parseLockTime_ok_iff_uint16 [of decimal_reader "''-1''" "- 1"] r4
    by (simp add: IsUint64_def)
  show ?thesis by (intro conjI a b [THEN conjunct1] b [THEN conjunct2] c d)
qed


lemma parseBtcAmount_ok_iff:
  "snd (parseBtcAmount p s) = None \<longleftrightarrow> (\<exists>n. p s = Some n \<and> 0 \<le> n \<and> n < 2 ^ 63)"
  by (cases "p s") (auto simp: parseBtcAmount_def Let_def IsNegative_def IsInt64_def)

lemma parseBtcAmount_value:
  assumes "p s = Some n" "0 \<le> n" "n < 2 ^ 63"
  shows "snd (parseBtcAmount p s) = None \<and> sint (fst (parseBtcAmount p s)) = n"
proof -
  have i: "IsInt64 n" using assms by (simp add: IsInt64_def)
  show ?thesis
    using assms i sint_Int64 [OF i] by (simp add: parseBtcAmount_def Let_def IsNegative_def)
qed

text \<open>
  Claim C9. \<open>parseBtcAmount\<close> returns without error exactly when the string reads as
  an integer from 0 to the \<open>int64\<close> maximum, and then returns that integer; a string
  that reads as 0 gives amount 0 and no error; a negative integer and a string that
  does not read as an integer give an error.
\<close>

theorem parseBtcAmount_ok_iff_nonneg_int64:
  "(snd (parseBtcAmount p s) = None \<longleftrightarrow> (\<exists>n. p s = Some n \<and> 0 \<le> n \<and> n \<le> 2 ^ 63 - 1))
   \<and> (p s = Some n \<and> 0 \<le> n \<and> n \<le> 2 ^ 63 - 1 \<longrightarrow>
        snd (parseBtcAmount p s) = None \<and> sint (fst (parseBtcAmount p s)) = n)
   \<and> (p s = Some 0 \<longrightarrow> parseBtcAmount p s = (0, None))
   \<and> (p s = None \<or> (p s = Some n \<and> n < 0) \<longrightarrow> snd (parseBtcAmount p s) \<noteq> None)"
proof -
  have a: "snd (parseBtcAmount p s) = None \<longleftrightarrow> (\<exists>n. p s = Some n \<and> 0 \<le> n \<and> n \<le> 2 ^ 63 - 1)"
    using parseBtcAmount_ok_iff [of p s] by auto
  have b: "p s = Some n \<and> 0 \<le> n \<and> n \<le> 2 ^ 63 - 1 \<longrightarrow>
        snd (parseBtcAmount p s) = None \<and> sint (fst (parseBtcAmount p s)) = n"
    using parseBtcAmount_value [of p s n] by auto
  have c: "p s = Some 0 \<longrightarrow> parseBtcAmount p s = (0, None)"
    by (simp add: parseBtcAmount_def IsNegative_def IsInt64_def Int64_def)
  have d: "p s = None \<or> (p s = Some n \<and> n < 0) \<longrightarrow> snd (parseBtcAmount p s) \<noteq> None"
    using parseBtcAmount_ok_iff [of p s] by auto
  show ?thesis by (intro conjI a b c d)
qed

theorem parseBtcAmount_ok_iff_nonneg_int64_witness:
  "parseBtcAmount decimal_reader ''0'' = (0, None)
   \<and> snd (parseBtcAmount decimal_reader ''200000000'') = None
   \<and> sint (fst (parseBtcAmount decimal_reader ''200000000'')) = 200000000
   \<and> snd (parseBtcAmount decimal_reader ''-5'') \<noteq> None
   \<and> snd (parseBtcAmount decimal_reader ''1btc'') \<noteq> None
   \<and> snd (parseBtcAmount decimal_reader ''9223372036854775808'') \<noteq> None"
proof -
  have r0: "decimal_reader ''0'' = Some 0" by (simp add: decimal_reader_def decimal_magnitude_def digit_of_def)
  have r1: "decimal_reader ''200000000'' = Some 200000000" by (simp add: decimal_reader_def decimal_magnitude_def digit_of_def)
  have r2: "decimal_reader ''-5'' = Some (- 5)" by (simp add: decimal_reader_def decimal_magnitude_def digit_of_def)
  have r3: "decimal_reader ''1btc'' = None" by (simp add: decimal_reader_def decimal_magnitude_def digit_of_def)
  have r4: "decimal_reader ''9223372036854775808'' = Some 9223372036854775808" by (simp add: decimal_reader_def decimal_magnitude_def digit_of_def)
  have a: "parseBtcAmount decimal_reader ''0'' = (0, None)"
    using parseBtcAmount_ok_iff_nonneg_int64 [of decimal_reader "''0''" 0] r0 by simp
  have b: "snd (parseBtcAmount decimal_reader ''200000000'') = None
      \<and> sint (fst (parseBtcAmount decimal_reader ''200000000'')) = 200000000"
    using parseBtcAmount_ok_iff_nonneg_int64 [of decimal_reader "''200000000''" 200000000] r1
    by simp
  have c: "snd (parseBtcAmount decimal_reader ''-5'') \<noteq> None"
    using parseBtcAmount_ok_iff_nonneg_int64 [of decimal_reader "''-5''" "- 5"] r2 by simp
  have d: "snd (parseBtcAmount decimal_reader ''1btc'') \<noteq> None"
    using parseBtcAmount_ok_iff_nonneg_int64 [of decimal_reader "''1btc''" 0] r3 by simp
  have e: "snd (parseBtcAmount decimal_reader ''9223372036854775808'') \<noteq> None"
    using parseBtcAmount_ok_iff_nonneg_int64
      [of decimal_reader "''9223372036854775808''" 9223372036854775808] r4 by simp
  show ?thesis
    by (intro conjI a b [THEN conjunct1] b [THEN conjunct2] c d e)
qed

section \<open>The staking output: execution of the unbonding leaf\<close>

subsection \<open>Script numbers\<close>

declare le_bytes.simps [simp del]

lemma le_bytes_0: "le_bytes 0 = []"
  by (subst le_bytes.simps) simp

lemma le_bytes_pos: "0 < n \<Longrightarrow> le_bytes n = word_of_nat (n mod 256) # le_bytes (n div 256)"
  by (subst le_bytes.simps) simp

lemma le_value_le_bytes: "le_value (le_bytes n) = n"
proof (induction n rule: le_bytes.induct)
  case (1 n)
  show ?case
  proof (cases "n = 0")
    case True
    then show ?thesis by (simp add: le_bytes_0)
  next
    case False
    have "unat (word_of_nat (n mod 256) :: 8 word) = n mod 256"
      by (simp add: unat_of_nat)
    then show ?thesis
      using False 1 by (simp add: le_bytes_pos)
  qed
qed

lemma le_value_append_zero: "le_value (bs @ [0]) = le_value bs"
  by (induction bs) simp_all

lemma le_bytes_eq_Nil: "le_bytes n = [] \<longleftrightarrow> n = 0"
  by (cases "n = 0") (simp_all add: le_bytes_0 le_bytes_pos)

lemma scriptNumValue_scriptNum_nat: "scriptNumValue (scriptNum (int n)) = int n"
proof (cases "n = 0")
  case True
  then show ?thesis by (simp add: scriptNum_def scriptNumValue_def)
next
  case False
  then have ne: "le_bytes n \<noteq> []" by (simp add: le_bytes_eq_Nil)
  show ?thesis
  proof (cases "128 \<le> unat (last (le_bytes n))")
    case True
    then have "scriptNum (int n) = le_bytes n @ [0]"
      using False by (simp add: scriptNum_def Let_def)
    then show ?thesis
      by (simp add: scriptNumValue_def le_value_append_zero le_value_le_bytes)
  next
    case F: False
    then have "scriptNum (int n) = le_bytes n"
      using False by (simp add: scriptNum_def Let_def)
    then show ?thesis
      using ne F by (simp add: scriptNumValue_def le_value_le_bytes)
  qed
qed

lemma fromBool_scriptNum: "fromBool b = scriptNum (int (if b then 1 else 0))"
proof -
  have "le_bytes 1 = [1]"
    by (simp add: le_bytes_pos le_bytes_0)
  then show ?thesis by (simp add: fromBool_def scriptNum_def)
qed

lemma castToBool_fromBool: "castToBool (fromBool b) = b"
  by (simp add: fromBool_def)

subsection \<open>The threshold check counts the valid signatures\<close>

lemma exec_append:
  "exec chk tx (xs @ ys) st =
     (case exec chk tx xs st of None \<Rightarrow> None | Some st' \<Rightarrow> exec chk tx ys st')"
  by (induction xs arbitrary: st) (auto split: option.splits)

lemma step_checksigadd_num:
  "step chk tx OP_CHECKSIGADD (pk # scriptNum (int c) # sig # r) =
     (case chk pk sig of
        None \<Rightarrow> None
      | Some b \<Rightarrow> Some (scriptNum (int (c + (if b then 1 else 0))) # r))"
  by (cases "chk pk sig") (simp_all add: scriptNumValue_scriptNum_nat)

lemma exec_accumulate:
  assumes "length S = length K"
    and "\<forall>pk \<in> set K. length pk \<le> MaxScriptElementSize"
    and "length S + length st + 2 \<le> MaxStackSize"
  shows "exec chk tx (concat (map (\<lambda>pk. [OP_DATA pk, OP_CHECKSIGADD]) K) @ rest)
           (scriptNum (int c) # S @ st) =
         (if \<forall>p \<in> set (zip K S). chk (fst p) (snd p) \<noteq> None
          then exec chk tx rest
                 (scriptNum (int (c + length (filter (\<lambda>p. chk (fst p) (snd p) = Some True) (zip K S)))) # st)
          else None)"
  using assms
proof (induction K arbitrary: S c)
  case Nil
  then show ?case by simp
next
  case (Cons pk K)
  from Cons.prems(1) obtain s S' where S: "S = s # S'" and len: "length S' = length K"
    by (cases S) auto
  have key: "\<not> MaxScriptElementSize < length pk"
    using Cons.prems(2) by (simp add: not_less)
  have keys: "\<forall>pk \<in> set K. length pk \<le> MaxScriptElementSize"
    using Cons.prems(2) by simp
  have sz: "\<not> MaxStackSize < Suc (Suc (Suc (length S' + length st)))"
    and sz1: "\<not> MaxStackSize < Suc (length S' + length st)"
    and sz': "length S' + length st + 2 \<le> MaxStackSize"
    using Cons.prems(3) by (simp_all add: S)
  show ?case
  proof (cases "chk pk s")
    case None
    then show ?thesis
      by (simp add: S key sz step_checksigadd_num del: step.simps(5))
  next
    case (Some b)
    let ?n = "length (filter (\<lambda>p. chk (fst p) (snd p) = Some True) (zip K S'))"
    have A: "exec chk tx (concat (map (\<lambda>pk. [OP_DATA pk, OP_CHECKSIGADD]) (pk # K)) @ rest)
           (scriptNum (int c) # S @ st)
        = exec chk tx (concat (map (\<lambda>pk. [OP_DATA pk, OP_CHECKSIGADD]) K) @ rest)
           (scriptNum (int (c + (if b then 1 else 0))) # S' @ st)"
      using Some by (simp add: S key sz sz1 step_checksigadd_num del: step.simps(5))
    have B: "exec chk tx (concat (map (\<lambda>pk. [OP_DATA pk, OP_CHECKSIGADD]) K) @ rest)
           (scriptNum (int (c + (if b then 1 else 0))) # S' @ st) =
         (if \<forall>p \<in> set (zip K S'). chk (fst p) (snd p) \<noteq> None
          then exec chk tx rest (scriptNum (int (c + (if b then 1 else 0) + ?n)) # st)
          else None)"
      by (rule Cons.IH [OF len keys sz'])
    have C: "(if \<forall>p \<in> set (zip (pk # K) S). chk (fst p) (snd p) \<noteq> None
          then exec chk tx rest
                 (scriptNum (int (c + length (filter (\<lambda>p. chk (fst p) (snd p) = Some True)
                    (zip (pk # K) S)))) # st)
          else None) =
         (if \<forall>p \<in> set (zip K S'). chk (fst p) (snd p) \<noteq> None
          then exec chk tx rest (scriptNum (int (c + (if b then 1 else 0) + ?n)) # st)
          else None)"
      using Some by (cases b) (auto simp add: S)
    show ?thesis by (simp only: A B C)
  qed
qed

lemma exec_compare_threshold:
  assumes "length st + 2 \<le> MaxStackSize"
  shows "exec chk tx ([OP_NUM k, OP_GREATERTHANOREQUAL] @ rest) (scriptNum (int m) # st) =
     exec chk tx rest (fromBool (k \<le> m) # st)"
proof -
  have "\<not> MaxStackSize < Suc (Suc (length st))" and "\<not> MaxStackSize < Suc (length st)"
    using assms by simp_all
  then show ?thesis
    by (simp add: scriptNumValue_scriptNum_nat)
qed

lemma exec_thresholdScript:
  assumes "length S = length K" and "K \<noteq> []"
    and "\<forall>pk \<in> set K. length pk \<le> MaxScriptElementSize"
    and "length S + length st + 1 \<le> MaxStackSize"
  shows "exec chk tx (thresholdScript K k @ rest) (S @ st) =
         (if \<forall>p \<in> set (zip K S). chk (fst p) (snd p) \<noteq> None
          then exec chk tx rest
                 (fromBool (k \<le> length (filter (\<lambda>p. chk (fst p) (snd p) = Some True) (zip K S))) # st)
          else None)"
proof -
  obtain pk K' where K: "K = pk # K'" using assms(2) by (cases K) auto
  obtain s S' where S: "S = s # S'" and len: "length S' = length K'"
    using assms(1) K by (cases S) auto
  have key: "\<not> MaxScriptElementSize < length pk"
    using assms(3) by (simp add: K not_less)
  have keys: "\<forall>pk \<in> set K'. length pk \<le> MaxScriptElementSize"
    using assms(3) by (simp add: K)
  have sz: "\<not> MaxStackSize < Suc (Suc (length S' + length st))"
    and sz1: "\<not> MaxStackSize < Suc (length S' + length st)"
    and sz': "length S' + length st + 2 \<le> MaxStackSize"
    and sz'': "length st + 2 \<le> MaxStackSize"
    using assms(4) by (simp_all add: S)
  show ?thesis
  proof (cases "chk pk s")
    case None
    then show ?thesis by (simp add: K S key sz thresholdScript_def)
  next
    case (Some b)
    let ?n = "length (filter (\<lambda>p. chk (fst p) (snd p) = Some True) (zip K' S'))"
    have A: "exec chk tx (thresholdScript K k @ rest) (S @ st)
        = exec chk tx (concat (map (\<lambda>pk. [OP_DATA pk, OP_CHECKSIGADD]) K')
                        @ ([OP_NUM k, OP_GREATERTHANOREQUAL] @ rest))
            (scriptNum (int (if b then 1 else 0)) # S' @ st)"
      using Some by (simp add: K S key sz sz1 thresholdScript_def fromBool_scriptNum)
    have B: "exec chk tx (concat (map (\<lambda>pk. [OP_DATA pk, OP_CHECKSIGADD]) K')
                        @ ([OP_NUM k, OP_GREATERTHANOREQUAL] @ rest))
            (scriptNum (int (if b then 1 else 0)) # S' @ st) =
        (if \<forall>p \<in> set (zip K' S'). chk (fst p) (snd p) \<noteq> None
         then exec chk tx ([OP_NUM k, OP_GREATERTHANOREQUAL] @ rest)
                (scriptNum (int ((if b then 1 else 0) + ?n)) # st)
         else None)"
      by (rule exec_accumulate [OF len keys sz'])
    have C: "(if \<forall>p \<in> set (zip K S). chk (fst p) (snd p) \<noteq> None
          then exec chk tx rest
                 (fromBool (k \<le> length (filter (\<lambda>p. chk (fst p) (snd p) = Some True) (zip K S))) # st)
          else None) =
        (if \<forall>p \<in> set (zip K' S'). chk (fst p) (snd p) \<noteq> None
         then exec chk tx rest (fromBool (k \<le> (if b then 1 else 0) + ?n) # st)
         else None)"
      using Some by (cases b) (auto simp add: K S)
    have D: "exec chk tx ([OP_NUM k, OP_GREATERTHANOREQUAL] @ rest)
                (scriptNum (int ((if b then 1 else 0) + ?n)) # st)
        = exec chk tx rest (fromBool (k \<le> (if b then 1 else 0) + ?n) # st)"
      by (rule exec_compare_threshold [OF sz''])
    show ?thesis by (simp only: A B C D)
  qed
qed

subsection \<open>Key order and the branch hash\<close>

lemma Compare_flip: "Compare b a = - Compare a b"
  by (induction a b rule: Compare.induct) auto

lemma Compare_eq_0: "Compare a b = 0 \<Longrightarrow> a = b"
  by (induction a b rule: Compare.induct) (auto split: if_splits)

lemma Compare_range: "Compare a b = - 1 \<or> Compare a b = 0 \<or> Compare a b = 1"
  by (induction a b rule: Compare.induct) auto

lemma tapBranch_commute: "tapBranch cr a b = tapBranch cr b a"
proof (cases "Compare a b = 0")
  case True
  then show ?thesis using Compare_eq_0 by auto
next
  case False
  then show ?thesis
    using Compare_flip [of b a] Compare_range [of a b] by (auto simp: tapBranch_def)
qed

lemma length_insert_stable: "length (insert_stable lt x xs) = Suc (length xs)"
  by (induction xs) simp_all

lemma set_insert_stable: "set (insert_stable lt x xs) = insert x (set xs)"
  by (induction xs) auto

lemma length_SliceStable: "length (SliceStable lt xs) = length xs"
  by (induction xs) (simp_all add: SliceStable_def length_insert_stable)

lemma set_SliceStable: "set (SliceStable lt xs) = set xs"
  by (induction xs) (simp_all add: SliceStable_def set_insert_stable)

lemma length_sortKeys: "length (sortKeys keys) = length keys"
  by (simp add: sortKeys_def length_SliceStable)

lemma set_sortKeys: "set (sortKeys keys) = set keys"
  by (simp add: sortKeys_def set_SliceStable)

subsection \<open>The order of the test's signatures is the slot order\<close>

lemma map_insert_stable:
  assumes "\<And>a b. lt' a b = lt (f a) (f b)"
  shows "map f (insert_stable lt' x xs) = insert_stable lt (f x) (map f xs)"
  by (induction xs) (simp_all add: assms)

lemma map_SliceStable:
  assumes "\<And>a b. lt' a b = lt (f a) (f b)"
  shows "map f (SliceStable lt' xs) = SliceStable lt (map f xs)"
proof (induction xs)
  case Nil
  then show ?case by (simp add: SliceStable_def)
next
  case (Cons x xs)
  then show ?case
    using map_insert_stable [of lt' lt f x "SliceStable lt' xs", OF assms]
    by (simp add: SliceStable_def)
qed

lemma sortSignatureInfo_keys:
  "map SignerPubKey (sortSignatureInfo infos) = sortKeys (map SignerPubKey infos)"
  unfolding sortSignatureInfo_def sortKeys_def
  by (rule map_SliceStable) simp

subsection \<open>The unbonding leaf on the witness stack\<close>

lemma initialStack_slots: "initialStack (map slotElem slots) = Some (map slotBytes slots)"
  by (induction slots) (simp_all add: slotElem_def)

lemma checkSig_not_None:
  "length pk = 32 \<Longrightarrow>
     checkSig cr tx out lh pk sig \<noteq> None
       \<longleftrightarrow> (sig = [] \<or> signatureValid cr tx out lh pk sig)"
  by (auto simp: checkSig_def)

lemma checkSig_True:
  "length pk = 32 \<Longrightarrow>
     checkSig cr tx out lh pk sig = Some True \<longleftrightarrow> signatureValid cr tx out lh pk sig"
  by (auto simp: checkSig_def signatureValid_def)

lemma signatureValid_size:
  "signatureValid cr tx out lh pk sig \<Longrightarrow> sig \<noteq> [] \<and> length sig \<le> MaxScriptElementSize"
  by (auto simp: signatureValid_def MaxScriptElementSize_def)

lemma exec_unbonding_script:
  assumes staker: "chk stakerKey stakerSig = Some True"
    and skey: "length stakerKey \<le> MaxScriptElementSize"
    and len: "length B = length K" and ne: "K \<noteq> []"
    and keys: "\<forall>pk \<in> set K. length pk \<le> MaxScriptElementSize"
    and sz: "length K + 2 \<le> MaxStackSize"
  shows "exec chk tx ([OP_DATA stakerKey, OP_CHECKSIGVERIFY] @ thresholdScript (rev K) k)
           (stakerSig # rev B) =
         (if \<forall>p \<in> set (zip K B). chk (fst p) (snd p) \<noteq> None
          then Some [fromBool (k \<le> length (filter (\<lambda>p. chk (fst p) (snd p) = Some True) (zip K B)))]
          else None)"
proof -
  have z: "zip (rev K) (rev B) = rev (zip K B)"
    using len by (simp add: zip_rev)
  have s1: "\<not> MaxScriptElementSize < length stakerKey"
    using skey by (simp add: not_less)
  have s2: "\<not> MaxStackSize < Suc (Suc (length B))" and s3: "\<not> MaxStackSize < length B"
    using sz len by simp_all
  have "exec chk tx ([OP_DATA stakerKey, OP_CHECKSIGVERIFY] @ thresholdScript (rev K) k)
           (stakerSig # rev B)
      = exec chk tx (thresholdScript (rev K) k @ []) (rev B @ [])"
    using staker s1 s2 s3 by simp
  also have "\<dots> =
      (if \<forall>p \<in> set (zip (rev K) (rev B)). chk (fst p) (snd p) \<noteq> None
       then exec chk tx []
              (fromBool (k \<le> length (filter (\<lambda>p. chk (fst p) (snd p) = Some True)
                 (zip (rev K) (rev B)))) # [])
       else None)"
    by (rule exec_thresholdScript) (use len ne keys sz in simp_all)
  finally show ?thesis
    by (simp add: z flip: rev_filter)
qed

lemma exec_unbonding_overflow:
  assumes "MaxStackSize < length B + 2"
  shows "exec chk tx ([OP_DATA stakerKey, OP_CHECKSIGVERIFY] @ ops) (stakerSig # rev B) = None"
  using assms by simp

subsection \<open>What a successful build holds, and the commitment of the unbonding leaf\<close>

lemma BuildStakingInfo_Inr:
  assumes "BuildStakingInfo cr ks lp = Inr info"
  shows "0 < covenant_threshold ks" and "covenant_threshold ks \<le> length (covenant ks)"
    and "validators ks \<noteq> []" and "covenant ks \<noteq> []"
    and "length (staker ks) = 32"
    and "\<forall>pk \<in> set (validators ks). length pk = 32"
    and "\<forall>pk \<in> set (covenant ks). length pk = 32"
    and "timelock_leaf (tree info) = timeLockLeaf (staker ks) (timelock_blocks lp)"
    and "unbonding_leaf (tree info)
           = unbondingLeaf (staker ks) (covenant ks) (covenant_threshold ks)"
    and "slashing_leaf (tree info)
           = slashingLeaf (staker ks) (validators ks) (covenant ks) (covenant_threshold ks)"
  using assms
  by (auto simp: BuildStakingInfo_def Let_def assembleTree_def split: if_splits)

lemma BuildStakingInfo_output:
  assumes "BuildStakingInfo cr ks lp = Inr info"
  shows "StakingOutput info =
           \<lparr> PkScript = outputScript cr (timelock_leaf (tree info)) (unbonding_leaf (tree info))
                         (slashing_leaf (tree info)),
             Value = staking_amount lp \<rparr>"
    and "tree info = assembleTree cr (timelock_leaf (tree info)) (unbonding_leaf (tree info))
                       (slashing_leaf (tree info))"
  using assms
  by (auto simp: BuildStakingInfo_def Let_def assembleTree_def split: if_splits)

lemma merkleRoot_timelock:
  "merkleRoot cr (leafHash cr a) [leafHash cr b, leafHash cr c] = treeRoot cr a b c"
  by (simp add: merkleRoot_def treeRoot_def)

lemma merkleRoot_unbonding:
  "merkleRoot cr (leafHash cr b) [leafHash cr a, leafHash cr c] = treeRoot cr a b c"
  by (simp add: merkleRoot_def treeRoot_def tapBranch_commute [of cr "leafHash cr b"])

lemma merkleRoot_slashing:
  "merkleRoot cr (leafHash cr c) [tapBranch cr (leafHash cr a) (leafHash cr b)]
     = treeRoot cr a b c"
  by (simp add: merkleRoot_def treeRoot_def tapBranch_commute [of cr "leafHash cr c"])

lemma unbonding_commitment:
  assumes "BuildStakingInfo cr ks lp = Inr info"
  shows "\<exists>q. PkScript (StakingOutput info) = PayToTaproot q
           \<and> cb_leaf_version (unbonding_proof (tree info)) = TapscriptLeafVersion
           \<and> taptweak cr (cb_internal_key (unbonding_proof (tree info)))
                (merkleRoot cr
                   (tapleaf_hash cr (cb_leaf_version (unbonding_proof (tree info)))
                      (script (unbonding_leaf (tree info))))
                   (cb_merkle_path (unbonding_proof (tree info))))
               = (cb_output_parity (unbonding_proof (tree info)), q)"
proof -
  let ?tl = "timelock_leaf (tree info)" and ?ub = "unbonding_leaf (tree info)"
    and ?sl = "slashing_leaf (tree info)"
  have ub: "?ub = unbondingLeaf (staker ks) (covenant ks) (covenant_threshold ks)"
    by (rule BuildStakingInfo_Inr(9) [OF assms])
  have v: "leaf_version ?ub = TapscriptLeafVersion"
    by (simp add: ub unbondingLeaf_def)
  have cb: "unbonding_proof (tree info)
      = controlBlock cr (treeRoot cr ?tl ?ub ?sl) ?ub [leafHash cr ?tl, leafHash cr ?sl]"
    by (subst BuildStakingInfo_output(2) [OF assms]) (simp add: assembleTree_def Let_def)
  have out: "PkScript (StakingOutput info) = outputScript cr ?tl ?ub ?sl"
    by (subst BuildStakingInfo_output(1) [OF assms]) simp
  have root: "merkleRoot cr (tapleaf_hash cr TapscriptLeafVersion (script ?ub))
                [leafHash cr ?tl, leafHash cr ?sl] = treeRoot cr ?tl ?ub ?sl"
    using merkleRoot_unbonding [of cr ?ub ?tl ?sl] by (simp add: leafHash_def v)
  show ?thesis
    by (simp add: cb out outputScript_def controlBlock_def root v)
qed

subsection \<open>From checked stack elements to signature slots\<close>

lemma validSignature_eq:
  "validSignature cr tx info si
     = signatureValid cr tx (StakingOutput info) (leafHash cr (RevealedLeaf si))"
  by (intro ext) (simp add: validSignature_def)

lemma slotValid_slotBytes:
  "slotValid (signatureValid cr tx out lh) p
     \<longleftrightarrow> signatureValid cr tx out lh (fst p) (slotBytes (snd p))"
  by (cases "snd p") (auto simp: slotValid_def slotBytes_def signatureValid_def)

lemma count_true_eq_validCount:
  assumes "\<forall>pk \<in> set K. length pk = 32"
  shows "length (filter (\<lambda>p. checkSig cr tx out lh (fst p) (snd p) = Some True)
                  (zip K (map slotBytes S)))
       = validCount (signatureValid cr tx out lh) K S"
proof -
  have "filter (\<lambda>p. checkSig cr tx out lh (fst p) (slotBytes (snd p)) = Some True) (zip K S)
      = filter (slotValid (signatureValid cr tx out lh)) (zip K S)"
  proof (rule filter_cong [OF refl])
    fix p assume "p \<in> set (zip K S)"
    then have "(fst p, snd p) \<in> set (zip K S)" by simp
    then have "fst p \<in> set K" by (rule set_zip_leftD)
    then have "length (fst p) = 32" using assms by simp
    then show "(checkSig cr tx out lh (fst p) (slotBytes (snd p)) = Some True)
        = slotValid (signatureValid cr tx out lh) p"
      by (simp add: checkSig_True slotValid_slotBytes)
  qed
  then show ?thesis
    by (simp add: validCount_def zip_map2 filter_map o_def case_prod_unfold)
qed

lemma all_checked_iff:
  assumes "\<forall>pk \<in> set K. length pk = 32"
  shows "(\<forall>p \<in> set (zip K (map slotBytes S)). checkSig cr tx out lh (fst p) (snd p) \<noteq> None)
       \<longleftrightarrow> (\<forall>p \<in> set (zip K S). slotBytes (snd p) = []
              \<or> slotValid (signatureValid cr tx out lh) p)"
proof -
  have "(checkSig cr tx out lh (fst p) (slotBytes (snd p)) \<noteq> None)
      = (slotBytes (snd p) = [] \<or> slotValid (signatureValid cr tx out lh) p)"
    if "p \<in> set (zip K S)" for p
  proof -
    from that have "(fst p, snd p) \<in> set (zip K S)" by simp
    then have "fst p \<in> set K" by (rule set_zip_leftD)
    then have "length (fst p) = 32" using assms by simp
    then have A: "checkSig cr tx out lh (fst p) (slotBytes (snd p)) \<noteq> None
        \<longleftrightarrow> (slotBytes (snd p) = []
             \<or> signatureValid cr tx out lh (fst p) (slotBytes (snd p)))"
      by (rule checkSig_not_None)
    show ?thesis unfolding A slotValid_slotBytes ..
  qed
  then show ?thesis
    by (simp add: zip_map2 case_prod_unfold)
qed

lemma checked_slots_sizes:
  assumes len: "length S = length K"
    and chk: "\<forall>p \<in> set (zip K S). slotBytes (snd p) = []
                \<or> slotValid (signatureValid cr tx out lh) p"
  shows "list_all (\<lambda>e. length e \<le> MaxScriptElementSize) (map slotBytes S)"
proof -
  have "length (slotBytes slot) \<le> MaxScriptElementSize" if slot: "slot \<in> set S" for slot
  proof -
    have "snd ` set (zip K S) = set S"
      using len by (simp flip: set_map)
    then have "slot \<in> snd ` set (zip K S)"
      using slot by simp
    then obtain pk where "(pk, slot) \<in> set (zip K S)"
      by force
    then have "slotBytes slot = [] \<or> slotValid (signatureValid cr tx out lh) (pk, slot)"
      using chk by force
    then show ?thesis
    proof
      assume "slotBytes slot = []"
      then show ?thesis by simp
    next
      assume "slotValid (signatureValid cr tx out lh) (pk, slot)"
      then have "signatureValid cr tx out lh pk (slotBytes slot)"
        by (simp add: slotValid_slotBytes)
      then show ?thesis by (simp add: signatureValid_size)
    qed
  qed
  then show ?thesis by (simp add: list_all_iff)
qed

lemma validCount_eq_presentCount:
  assumes "allPresentValid valid K S" and "length S = length K"
  shows "validCount valid K S = presentCount S"
proof -
  have "filter (slotValid valid) (zip K S) = filter (\<lambda>p. snd p \<noteq> None) (zip K S)"
  proof (rule filter_cong [OF refl])
    fix p assume "p \<in> set (zip K S)"
    then have "snd p = None \<or> slotValid valid p"
      using assms(1) by (simp add: allPresentValid_def list_all_iff)
    then show "slotValid valid p = (snd p \<noteq> None)"
      by (auto simp: slotValid_def split: option.splits)
  qed
  moreover have "length (filter (\<lambda>p. snd p \<noteq> None) (zip K S))
      = length (filter (\<lambda>slot. slot \<noteq> None) (map snd (zip K S)))"
    by (simp add: filter_map o_def)
  moreover have "map snd (zip K S) = S"
    using assms(2) by simp
  ultimately show ?thesis
    by (simp add: validCount_def presentCount_def)
qed

lemma allPresentValid_checked:
  assumes "allPresentValid valid K S"
  shows "\<forall>p \<in> set (zip K S). slotBytes (snd p) = [] \<or> slotValid valid p"
proof
  fix p assume "p \<in> set (zip K S)"
  then have "snd p = None \<or> slotValid valid p"
    using assms by (simp add: allPresentValid_def list_all_iff)
  then show "slotBytes (snd p) = [] \<or> slotValid valid p"
    by (auto simp: slotBytes_def)
qed

text \<open>
  The verdict on an unbonding witness, in full: it is accepted exactly when the stack
  stays within its limit, every non-empty signature element is valid for the key of its
  slot, and the slots holding a valid signature reach the threshold.
\<close>

lemma EngineExecute_unbonding:
  assumes build: "BuildStakingInfo cr ks lp = Inr info"
    and len: "length covSigs = length (covenant ks)"
    and staker: "validSignature cr tx info (UnbondingPathSpendInfo info) (staker ks) stakerSig"
  shows "EngineExecute cr (StakingOutput info) tx
           (CreateWitness (UnbondingPathSpendInfo info) (map slotElem covSigs @ [Data stakerSig]))
       \<longleftrightarrow> length (covenant ks) + 2 \<le> MaxStackSize
           \<and> (\<forall>p \<in> set (zip (sortKeys (covenant ks)) covSigs).
              slotBytes (snd p) = []
              \<or> slotValid (validSignature cr tx info (UnbondingPathSpendInfo info)) p)
           \<and> covenant_threshold ks
               \<le> validCount (validSignature cr tx info (UnbondingPathSpendInfo info))
                    (sortKeys (covenant ks)) covSigs"
proof -
  let ?si = "UnbondingPathSpendInfo info"
  let ?K = "sortKeys (covenant ks)"
  let ?B = "map slotBytes covSigs"
  let ?scr = "script (unbonding_leaf (tree info))"
  let ?cb = "unbonding_proof (tree info)"
  let ?lh = "leafHash cr (RevealedLeaf ?si)"
  let ?chk = "checkSig cr tx (StakingOutput info) ?lh"
  let ?V = "signatureValid cr tx (StakingOutput info) ?lh"
  let ?A = "\<forall>p \<in> set (zip ?K covSigs). slotBytes (snd p) = [] \<or> slotValid ?V p"
  let ?n = "validCount ?V ?K covSigs"
  have ub: "unbonding_leaf (tree info)
      = unbondingLeaf (staker ks) (covenant ks) (covenant_threshold ks)"
    by (rule BuildStakingInfo_Inr(9) [OF build])
  have scr: "?scr = [OP_DATA (staker ks), OP_CHECKSIGVERIFY]
      @ thresholdScript (rev ?K) (covenant_threshold ks)"
    by (simp add: ub unbondingLeaf_def)
  have keys32: "\<forall>pk \<in> set ?K. length pk = 32"
    using BuildStakingInfo_Inr(7) [OF build] by (simp add: set_sortKeys)
  have keys: "\<forall>pk \<in> set ?K. length pk \<le> MaxScriptElementSize"
    using keys32 by (simp add: MaxScriptElementSize_def)
  have staker32: "length (staker ks) = 32"
    by (rule BuildStakingInfo_Inr(5) [OF build])
  have skey: "length (staker ks) \<le> MaxScriptElementSize"
    using staker32 by (simp add: MaxScriptElementSize_def)
  have Kne: "?K \<noteq> []"
    using BuildStakingInfo_Inr(4) [OF build] length_sortKeys [of "covenant ks"] by auto
  have lenB: "length ?B = length ?K"
    using len by (simp add: length_sortKeys)
  have lenS: "length covSigs = length ?K"
    using len by (simp add: length_sortKeys)
  obtain q where q: "PkScript (StakingOutput info) = PayToTaproot q"
    and ver: "cb_leaf_version ?cb = TapscriptLeafVersion"
    and commit: "taptweak cr (cb_internal_key ?cb)
        (merkleRoot cr (tapleaf_hash cr (cb_leaf_version ?cb) ?scr) (cb_merkle_path ?cb))
        = (cb_output_parity ?cb, q)"
    using unbonding_commitment [OF build] by blast
  have lh: "tapleaf_hash cr TapscriptLeafVersion ?scr = ?lh"
    by (simp add: leafHash_def UnbondingPathSpendInfo_def ub unbondingLeaf_def)
  have commit': "taptweak cr (cb_internal_key ?cb) (merkleRoot cr ?lh (cb_merkle_path ?cb))
        = (cb_output_parity ?cb, q)"
    using commit by (simp only: ver lh)
  have stV: "?V (staker ks) stakerSig"
    using staker by (simp add: validSignature_eq)
  have stk: "?chk (staker ks) stakerSig = Some True"
    using stV staker32 by (simp add: checkSig_True)
  have stack: "initialStack (Data stakerSig # rev (map slotElem covSigs))
      = Some (stakerSig # rev ?B)"
    using initialStack_slots [of "rev covSigs"] by (simp add: rev_map)
  have rv: "rev (CreateWitness ?si (map slotElem covSigs @ [Data stakerSig]))
      = ControlBlockElem ?cb # ScriptElem ?scr # Data stakerSig # rev (map slotElem covSigs)"
    by (simp add: CreateWitness_def UnbondingPathSpendInfo_def)
  have E0: "EngineExecute cr (StakingOutput info) tx
           (CreateWitness ?si (map slotElem covSigs @ [Data stakerSig]))
      \<longleftrightarrow> stackWithinLimits (stakerSig # rev ?B)
          \<and> (case exec ?chk tx ?scr (stakerSig # rev ?B) of
                Some [x] \<Rightarrow> castToBool x
              | _ \<Rightarrow> False)"
    unfolding EngineExecute_def rv
    by (simp only: list.case WitnessElem.case prod.case option.case q PkScript.case stack
          Let_def ver lh commit' simp_thms)
  have chkA: "(\<forall>p \<in> set (zip ?K ?B). ?chk (fst p) (snd p) \<noteq> None) \<longleftrightarrow> ?A"
    by (rule all_checked_iff [OF keys32])
  have cnt: "length (filter (\<lambda>p. ?chk (fst p) (snd p) = Some True) (zip ?K ?B)) = ?n"
    by (rule count_true_eq_validCount [OF keys32])
  have main: "EngineExecute cr (StakingOutput info) tx
           (CreateWitness ?si (map slotElem covSigs @ [Data stakerSig]))
      \<longleftrightarrow> length (covenant ks) + 2 \<le> MaxStackSize \<and> ?A \<and> covenant_threshold ks \<le> ?n"
  proof (cases "length (covenant ks) + 2 \<le> MaxStackSize")
    case True
    then have szK: "length ?K + 2 \<le> MaxStackSize"
      by (simp add: length_sortKeys)
    have run: "exec ?chk tx ?scr (stakerSig # rev ?B) =
        (if ?A then Some [fromBool (covenant_threshold ks \<le> ?n)] else None)"
      unfolding scr
      using exec_unbonding_script [where chk = "?chk", OF stk skey lenB Kne keys szK,
          of tx "covenant_threshold ks"]
      by (simp only: chkA cnt)
    have within: "stackWithinLimits (stakerSig # rev ?B)" if "?A"
    proof -
      have "list_all (\<lambda>e. length e \<le> MaxScriptElementSize) ?B"
        by (rule checked_slots_sizes [OF lenS that])
      moreover have "length stakerSig \<le> MaxScriptElementSize"
        using signatureValid_size [OF stV] by simp
      moreover have "length (stakerSig # rev ?B) \<le> MaxStackSize"
        using True len by simp
      ultimately show ?thesis
        by (simp add: stackWithinLimits_def list_all_iff)
    qed
    show ?thesis
    proof (cases "?A")
      case A: True
      have r: "exec ?chk tx ?scr (stakerSig # rev ?B)
          = Some [fromBool (covenant_threshold ks \<le> ?n)]"
        by (simp only: run eqTrueI [OF A] if_True)
      have X: "EngineExecute cr (StakingOutput info) tx
           (CreateWitness ?si (map slotElem covSigs @ [Data stakerSig]))
          \<longleftrightarrow> covenant_threshold ks \<le> ?n"
        unfolding E0 r using within [OF A] by (simp add: castToBool_fromBool)
      show ?thesis
        unfolding X by (simp only: eqTrueI [OF A] eqTrueI [OF True] simp_thms)
    next
      case nA: False
      have eqF: "?A = False"
        using nA by simp
      have r: "exec ?chk tx ?scr (stakerSig # rev ?B) = None"
        by (simp only: run eqF if_False)
      show ?thesis
        by (simp only: E0 r eqF option.case simp_thms)
    qed
  next
    case False
    then have "MaxStackSize < length ?B + 2"
      using len by simp
    then have "exec ?chk tx ?scr (stakerSig # rev ?B) = None"
      unfolding scr by (rule exec_unbonding_overflow)
    then show ?thesis
      using False by (simp add: E0)
  qed
  show ?thesis
    unfolding validSignature_eq by (rule main)
qed

subsection \<open>The example instance\<close>

lemma Compare_replicate:
  "Compare (replicate (Suc n) a) (replicate (Suc n) b) =
     (if a < b then - 1 else if b < a then 1 else 0)"
  by (induction n) auto

lemma Compare_example_key:
  "Compare (example_key a) (example_key b) = (if a < b then - 1 else if b < a then 1 else 0)"
proof -
  have "(32::nat) = Suc 31" by simp
  then show ?thesis
    unfolding example_key_def by (simp only: Compare_replicate)
qed

lemma sortKeys_example:
  "sortKeys (covenant example_keys)
     = [example_key 5, example_key 4, example_key 3, example_key 2, example_key 1]"
  by (simp add: example_keys_def sortKeys_def SliceStable_def Compare_example_key)

lemma BuildStakingInfo_example:
  "\<exists>info. BuildStakingInfo example_crypto example_keys example_lock = Inr info"
  by (simp add: BuildStakingInfo_def example_keys_def example_key_def Let_def)

lemma BuildStakingInfo_example_info:
  "BuildStakingInfo example_crypto example_keys example_lock = Inr example_info"
  using BuildStakingInfo_example by (auto simp: example_info_def)

lemma example_signature_valid:
  "validSignature example_crypto tx info si pk sig
     \<longleftrightarrow> sig = example_sign pk \<and> (length sig = 64 \<or> length sig = 65)"
  by (auto simp: validSignature_def signatureValid_def example_crypto_def)

lemma length_example_sign: "length (example_sign (example_key c)) = 64"
  by (simp add: example_sign_def example_key_def)

lemma example_sign_inject:
  "example_sign (example_key a) = example_sign (example_key b) \<longleftrightarrow> a = b"
  by (simp add: example_sign_def example_key_def)


section \<open>The staking output: claims\<close>

text \<open>
  Claim C1, as amended. On the unbonding path of a staking output built for \<open>n\<close>
  covenant keys and threshold \<open>k\<close>, take a slot list of \<open>n\<close> covenant signatures and a
  valid staker signature. \<open>CreateUnbondingPathWitness\<close> builds a witness. The
  interpreter accepts it whenever \<open>n + 2\<close> is within the stack limit of 1000 elements,
  every signature present is valid for the key of its slot, and at least \<open>k\<close> are
  present. It rejects it whenever fewer than \<open>k\<close> slots hold a valid signature.
\<close>

theorem unbonding_path_threshold:
  assumes "BuildStakingInfo cr ks lp = Inr info"
    and "length covSigs = length (covenant ks)"
    and "validSignature cr tx info (UnbondingPathSpendInfo info) (staker ks) stakerSig"
  shows "\<exists>w. CreateUnbondingPathWitness (UnbondingPathSpendInfo info) covSigs stakerSig = Inr w
           \<and> (length (covenant ks) + 2 \<le> MaxStackSize
                \<and> allPresentValid (validSignature cr tx info (UnbondingPathSpendInfo info))
                  (sortKeys (covenant ks)) covSigs
                \<and> covenant_threshold ks \<le> presentCount covSigs
                \<longrightarrow> EngineExecute cr (StakingOutput info) tx w)
           \<and> (validCount (validSignature cr tx info (UnbondingPathSpendInfo info))
                  (sortKeys (covenant ks)) covSigs < covenant_threshold ks
                \<longrightarrow> \<not> EngineExecute cr (StakingOutput info) tx w)"
proof -
  let ?si = "UnbondingPathSpendInfo info"
  let ?V = "validSignature cr tx info ?si"
  let ?K = "sortKeys (covenant ks)"
  let ?w = "CreateWitness ?si (map slotElem covSigs @ [Data stakerSig])"
  have ub: "unbonding_leaf (tree info)
      = unbondingLeaf (staker ks) (covenant ks) (covenant_threshold ks)"
    by (rule BuildStakingInfo_Inr(9) [OF assms(1)])
  have built: "CreateUnbondingPathWitness ?si covSigs stakerSig = Inr ?w"
    using assms(2)
    by (simp add: CreateUnbondingPathWitness_def UnbondingPathSpendInfo_def ub
        unbondingLeaf_def length_sortKeys)
  have E: "EngineExecute cr (StakingOutput info) tx ?w
      \<longleftrightarrow> length (covenant ks) + 2 \<le> MaxStackSize
          \<and> (\<forall>p \<in> set (zip ?K covSigs). slotBytes (snd p) = [] \<or> slotValid ?V p)
          \<and> covenant_threshold ks \<le> validCount ?V ?K covSigs"
    by (rule EngineExecute_unbonding [OF assms])
  have lenK: "length covSigs = length ?K"
    using assms(2) by (simp add: length_sortKeys)
  have acc: "EngineExecute cr (StakingOutput info) tx ?w"
    if "length (covenant ks) + 2 \<le> MaxStackSize" and "allPresentValid ?V ?K covSigs"
      and "covenant_threshold ks \<le> presentCount covSigs"
    using that(1,3) allPresentValid_checked [OF that(2)]
      validCount_eq_presentCount [OF that(2) lenK]
    by (simp add: E)
  have rej: "\<not> EngineExecute cr (StakingOutput info) tx ?w"
    if "validCount ?V ?K covSigs < covenant_threshold ks"
    using that by (simp add: E)
  show ?thesis
    using built acc rej by (intro exI [of _ ?w]) simp
qed

text \<open>
  The case of the test: five covenant keys, threshold three. With the first two slots
  empty (three signatures present) the witness is accepted; with the first three slots
  empty (two present) it is rejected.
\<close>

theorem unbonding_path_threshold_witness:
  "\<exists>info w3 w2.
     BuildStakingInfo example_crypto example_keys example_lock = Inr info
     \<and> CreateUnbondingPathWitness (UnbondingPathSpendInfo info)
          [None, None, Some (example_sign (example_key 3)), Some (example_sign (example_key 2)),
           Some (example_sign (example_key 1))]
          (example_sign (example_key 9)) = Inr w3
     \<and> EngineExecute example_crypto (StakingOutput info) example_tx w3
     \<and> CreateUnbondingPathWitness (UnbondingPathSpendInfo info)
          [None, None, None, Some (example_sign (example_key 2)),
           Some (example_sign (example_key 1))]
          (example_sign (example_key 9)) = Inr w2
     \<and> \<not> EngineExecute example_crypto (StakingOutput info) example_tx w2"
proof -
  obtain info where build: "BuildStakingInfo example_crypto example_keys example_lock = Inr info"
    using BuildStakingInfo_example by blast
  let ?si = "UnbondingPathSpendInfo info"
  let ?V = "validSignature example_crypto example_tx info ?si"
  let ?s3 = "[None, None, Some (example_sign (example_key 3)),
              Some (example_sign (example_key 2)), Some (example_sign (example_key 1))]"
  let ?s2 = "[None, None, None, Some (example_sign (example_key 2)),
              Some (example_sign (example_key 1))]"
  have V: "?V pk (example_sign (example_key c))
      \<longleftrightarrow> example_sign (example_key c) = example_sign pk" for pk c
    by (simp add: example_signature_valid length_example_sign)
  have staker: "?V (staker example_keys) (example_sign (example_key 9))"
    by (simp add: V example_keys_def)
  have k: "covenant_threshold example_keys = 3"
    by (simp add: example_keys_def)
  have bound: "length (covenant example_keys) + 2 \<le> MaxStackSize"
    by (simp add: example_keys_def MaxStackSize_def)
  have len3: "length ?s3 = length (covenant example_keys)"
    and len2: "length ?s2 = length (covenant example_keys)"
    by (simp_all add: example_keys_def)
  have ok3: "allPresentValid ?V (sortKeys (covenant example_keys)) ?s3"
    by (simp add: sortKeys_example allPresentValid_def slotValid_def V example_sign_inject)
  have n3: "covenant_threshold example_keys \<le> presentCount ?s3"
    by (simp add: k presentCount_def)
  have n2: "validCount ?V (sortKeys (covenant example_keys)) ?s2 < covenant_threshold example_keys"
    by (simp add: k sortKeys_example validCount_def slotValid_def V example_sign_inject)
  from unbonding_path_threshold [OF build len3 staker] bound ok3 n3
  obtain w3 where w3: "CreateUnbondingPathWitness ?si ?s3 (example_sign (example_key 9)) = Inr w3"
    "EngineExecute example_crypto (StakingOutput info) example_tx w3"
    by blast
  from unbonding_path_threshold [OF build len2 staker] n2
  obtain w2 where w2: "CreateUnbondingPathWitness ?si ?s2 (example_sign (example_key 9)) = Inr w2"
    "\<not> EngineExecute example_crypto (StakingOutput info) example_tx w2"
    by blast
  from build w3 w2 show ?thesis by blast
qed

text \<open>
  Claim C1 as first stated has no condition on the signatures present beyond their
  number: accepted whenever the present valid covenant signatures are at least \<open>k\<close>.
  It fails for the example keys (threshold 3) on \<open>example_misplaced_slots\<close>: three slots
  hold a signature valid for their key and the staker signature is valid, yet the
  witness is rejected, because the signature in the slot of \<open>example_key 4\<close> is not
  empty and does not verify for that key, which ends the script in failure.
\<close>

theorem unbonding_path_threshold_counterexample:
  "BuildStakingInfo example_crypto example_keys example_lock = Inr example_info
   \<and> length example_misplaced_slots = length (covenant example_keys)
   \<and> validSignature example_crypto example_tx example_info
        (UnbondingPathSpendInfo example_info) (staker example_keys)
        (example_sign (example_key 9))
   \<and> CreateUnbondingPathWitness (UnbondingPathSpendInfo example_info)
        example_misplaced_slots (example_sign (example_key 9))
      = Inr (CreateWitness (UnbondingPathSpendInfo example_info)
               (map slotElem example_misplaced_slots @ [Data (example_sign (example_key 9))]))
   \<and> covenant_threshold example_keys
       \<le> validCount
            (validSignature example_crypto example_tx example_info
               (UnbondingPathSpendInfo example_info))
            (sortKeys (covenant example_keys)) example_misplaced_slots
   \<and> \<not> EngineExecute example_crypto (StakingOutput example_info) example_tx
        (CreateWitness (UnbondingPathSpendInfo example_info)
           (map slotElem example_misplaced_slots @ [Data (example_sign (example_key 9))]))"
proof -
  let ?si = "UnbondingPathSpendInfo example_info"
  let ?V = "validSignature example_crypto example_tx example_info ?si"
  let ?K = "sortKeys (covenant example_keys)"
  let ?w = "CreateWitness ?si
      (map slotElem example_misplaced_slots @ [Data (example_sign (example_key 9))])"
  note build = BuildStakingInfo_example_info
  have V: "?V pk (example_sign (example_key c))
      \<longleftrightarrow> example_sign (example_key c) = example_sign pk" for pk c
    by (simp add: example_signature_valid length_example_sign)
  have len: "length example_misplaced_slots = length (covenant example_keys)"
    by (simp add: example_misplaced_slots_def example_keys_def)
  have staker: "?V (staker example_keys) (example_sign (example_key 9))"
    by (simp add: V example_keys_def)
  have ub: "unbonding_leaf (tree example_info)
      = unbondingLeaf (staker example_keys) (covenant example_keys)
          (covenant_threshold example_keys)"
    by (rule BuildStakingInfo_Inr(9) [OF build])
  have built: "CreateUnbondingPathWitness ?si example_misplaced_slots
      (example_sign (example_key 9)) = Inr ?w"
    using len
    by (simp add: CreateUnbondingPathWitness_def UnbondingPathSpendInfo_def ub
        unbondingLeaf_def length_sortKeys)
  have k: "covenant_threshold example_keys = 3"
    by (simp add: example_keys_def)
  have count: "covenant_threshold example_keys \<le> validCount ?V ?K example_misplaced_slots"
    by (simp add: k sortKeys_example example_misplaced_slots_def validCount_def slotValid_def V
        example_sign_inject)
  have present: "slotBytes (Some (example_sign (example_key 1))) \<noteq> []"
    by (simp add: slotBytes_def example_sign_def example_key_def)
  have invalid: "\<not> slotValid ?V (example_key 4, Some (example_sign (example_key 1)))"
    by (simp add: slotValid_def V example_sign_inject)
  have slot: "(example_key 4, Some (example_sign (example_key 1)))
      \<in> set (zip ?K example_misplaced_slots)"
    by (simp add: sortKeys_example example_misplaced_slots_def)
  have bad: "\<not> (\<forall>p \<in> set (zip ?K example_misplaced_slots).
      slotBytes (snd p) = [] \<or> slotValid ?V p)"
  proof
    assume "\<forall>p \<in> set (zip ?K example_misplaced_slots).
      slotBytes (snd p) = [] \<or> slotValid ?V p"
    from bspec [OF this slot] present invalid show False by simp
  qed
  have rejected: "\<not> EngineExecute example_crypto (StakingOutput example_info) example_tx ?w"
    using bad by (simp add: EngineExecute_unbonding [OF build len staker])
  show ?thesis
    by (intro conjI build len staker built count rejected)
qed

lemma nth_slotElems:
  "i < length slots \<Longrightarrow>
     (map slotElem slots @ rest) ! i = Data (slotBytes (slots ! i))"
  by (simp add: nth_append slotElem_def)

lemma nth_slotElems_second:
  "j < length slots \<Longrightarrow>
     (map slotElem first @ map slotElem slots @ rest) ! (length first + j)
       = Data (slotBytes (slots ! j))"
  by (simp add: nth_append slotElem_def)

text \<open>
  Claim C4. A witness built by \<open>CreateUnbondingPathWitness\<close> or
  \<open>CreateSlashingPathWitness\<close> from slot lists as long as the key lists of their roles
  has one element per slot, at the slot's position: the zero-length element for an
  empty slot, the signature for a filled one. Its size is the number of slots plus
  three (staker signature, leaf script, control block), however many slots are filled.
  In the slashing witness the validator slots follow the covenant slots.
\<close>

theorem absent_signature_is_empty_element:
  "(length covSigs = length (covenant_keys (RevealedLeaf si)) \<longrightarrow>
      (\<exists>w. CreateUnbondingPathWitness si covSigs stakerSig = Inr w
         \<and> length w = length (covenant_keys (RevealedLeaf si)) + 3
         \<and> (\<forall>i < length covSigs.
               (covSigs ! i = None \<longrightarrow> w ! i = Data [])
               \<and> (\<forall>sig. covSigs ! i = Some sig \<longrightarrow> w ! i = Data sig))))
   \<and> (length covSigs = length (covenant_keys (RevealedLeaf si))
        \<and> length valSigs = length (validator_keys (RevealedLeaf si)) \<longrightarrow>
      (\<exists>w. CreateSlashingPathWitness si covSigs valSigs stakerSig = Inr w
         \<and> length w = length (covenant_keys (RevealedLeaf si))
                        + length (validator_keys (RevealedLeaf si)) + 3
         \<and> (\<forall>i < length covSigs.
               (covSigs ! i = None \<longrightarrow> w ! i = Data [])
               \<and> (\<forall>sig. covSigs ! i = Some sig \<longrightarrow> w ! i = Data sig))
         \<and> (\<forall>j < length valSigs.
               (valSigs ! j = None \<longrightarrow> w ! (length covSigs + j) = Data [])
               \<and> (\<forall>sig. valSigs ! j = Some sig \<longrightarrow> w ! (length covSigs + j) = Data sig))))"
proof (intro conjI impI)
  assume len: "length covSigs = length (covenant_keys (RevealedLeaf si))"
  let ?w = "CreateWitness si (map slotElem covSigs @ [Data stakerSig])"
  have built: "CreateUnbondingPathWitness si covSigs stakerSig = Inr ?w"
    using len by (simp add: CreateUnbondingPathWitness_def)
  have size: "length ?w = length (covenant_keys (RevealedLeaf si)) + 3"
    using len by (simp add: CreateWitness_def)
  have at: "?w ! i = Data (slotBytes (covSigs ! i))" if "i < length covSigs" for i
    using nth_slotElems [OF that] by (simp add: CreateWitness_def)
  have slots: "\<forall>i < length covSigs.
      (covSigs ! i = None \<longrightarrow> ?w ! i = Data [])
      \<and> (\<forall>sig. covSigs ! i = Some sig \<longrightarrow> ?w ! i = Data sig)"
    by (simp add: at slotBytes_def)
  show "\<exists>w. CreateUnbondingPathWitness si covSigs stakerSig = Inr w
         \<and> length w = length (covenant_keys (RevealedLeaf si)) + 3
         \<and> (\<forall>i < length covSigs.
               (covSigs ! i = None \<longrightarrow> w ! i = Data [])
               \<and> (\<forall>sig. covSigs ! i = Some sig \<longrightarrow> w ! i = Data sig))"
    using built size slots by (intro exI [of _ ?w] conjI)
next
  assume "length covSigs = length (covenant_keys (RevealedLeaf si))
        \<and> length valSigs = length (validator_keys (RevealedLeaf si))"
  then have lenc: "length covSigs = length (covenant_keys (RevealedLeaf si))"
    and lenv: "length valSigs = length (validator_keys (RevealedLeaf si))"
    by simp_all
  let ?w = "CreateWitness si (map slotElem covSigs @ map slotElem valSigs @ [Data stakerSig])"
  have built: "CreateSlashingPathWitness si covSigs valSigs stakerSig = Inr ?w"
    using lenc lenv by (simp add: CreateSlashingPathWitness_def)
  have size: "length ?w = length (covenant_keys (RevealedLeaf si))
                        + length (validator_keys (RevealedLeaf si)) + 3"
    using lenc lenv by (simp add: CreateWitness_def)
  have atc: "?w ! i = Data (slotBytes (covSigs ! i))" if "i < length covSigs" for i
    using nth_slotElems [OF that] by (simp add: CreateWitness_def)
  have atv: "?w ! (length covSigs + j) = Data (slotBytes (valSigs ! j))"
    if "j < length valSigs" for j
    using nth_slotElems_second [OF that, of covSigs] by (simp add: CreateWitness_def)
  have cslots: "\<forall>i < length covSigs.
      (covSigs ! i = None \<longrightarrow> ?w ! i = Data [])
      \<and> (\<forall>sig. covSigs ! i = Some sig \<longrightarrow> ?w ! i = Data sig)"
    by (simp add: atc slotBytes_def)
  have vslots: "\<forall>j < length valSigs.
      (valSigs ! j = None \<longrightarrow> ?w ! (length covSigs + j) = Data [])
      \<and> (\<forall>sig. valSigs ! j = Some sig \<longrightarrow> ?w ! (length covSigs + j) = Data sig)"
    by (simp add: atv slotBytes_def)
  show "\<exists>w. CreateSlashingPathWitness si covSigs valSigs stakerSig = Inr w
         \<and> length w = length (covenant_keys (RevealedLeaf si))
                        + length (validator_keys (RevealedLeaf si)) + 3
         \<and> (\<forall>i < length covSigs.
               (covSigs ! i = None \<longrightarrow> w ! i = Data [])
               \<and> (\<forall>sig. covSigs ! i = Some sig \<longrightarrow> w ! i = Data sig))
         \<and> (\<forall>j < length valSigs.
               (valSigs ! j = None \<longrightarrow> w ! (length covSigs + j) = Data [])
               \<and> (\<forall>sig. valSigs ! j = Some sig \<longrightarrow> w ! (length covSigs + j) = Data sig))"
    using built size cslots vslots by (intro exI [of _ ?w] conjI)
qed

text \<open>
  For the example keys (five covenant keys, two validator keys): the unbonding witness
  has 8 elements and the slashing witness 10, with the empty element at each empty slot.
\<close>

theorem absent_signature_is_empty_element_witness:
  "\<exists>info wu ws.
     BuildStakingInfo example_crypto example_keys example_lock = Inr info
     \<and> CreateUnbondingPathWitness (UnbondingPathSpendInfo info)
          [None, None, Some (example_sign (example_key 3)), Some (example_sign (example_key 2)),
           Some (example_sign (example_key 1))]
          (example_sign (example_key 9)) = Inr wu
     \<and> length wu = 8 \<and> wu ! 0 = Data [] \<and> wu ! 1 = Data []
     \<and> wu ! 2 = Data (example_sign (example_key 3))
     \<and> CreateSlashingPathWitness (SlashingPathSpendInfo info)
          [None, None, Some (example_sign (example_key 3)), Some (example_sign (example_key 2)),
           Some (example_sign (example_key 1))]
          [None, Some (example_sign (example_key 7))]
          (example_sign (example_key 9)) = Inr ws
     \<and> length ws = 10 \<and> ws ! 0 = Data [] \<and> ws ! 5 = Data []
     \<and> ws ! 6 = Data (example_sign (example_key 7))"
proof -
  obtain info where build: "BuildStakingInfo example_crypto example_keys example_lock = Inr info"
    using BuildStakingInfo_example by blast
  let ?cs = "[None, None, Some (example_sign (example_key 3)),
              Some (example_sign (example_key 2)), Some (example_sign (example_key 1))]"
  let ?vs = "[None, Some (example_sign (example_key 7))]"
  let ?st = "example_sign (example_key 9)"
  have ucov: "length (covenant_keys (RevealedLeaf (UnbondingPathSpendInfo info))) = 5"
    by (simp add: UnbondingPathSpendInfo_def BuildStakingInfo_Inr(9) [OF build]
        unbondingLeaf_def length_sortKeys example_keys_def)
  have scov: "length (covenant_keys (RevealedLeaf (SlashingPathSpendInfo info))) = 5"
    and sval: "length (validator_keys (RevealedLeaf (SlashingPathSpendInfo info))) = 2"
    by (simp_all add: SlashingPathSpendInfo_def BuildStakingInfo_Inr(10) [OF build]
        slashingLeaf_def length_sortKeys example_keys_def)
  from absent_signature_is_empty_element
    [of ?cs "UnbondingPathSpendInfo info" ?st ?vs, THEN conjunct1] ucov
  obtain wu where wu:
    "CreateUnbondingPathWitness (UnbondingPathSpendInfo info) ?cs ?st = Inr wu"
    "length wu = 8"
    "\<forall>i < length ?cs. (?cs ! i = None \<longrightarrow> wu ! i = Data [])
        \<and> (\<forall>sig. ?cs ! i = Some sig \<longrightarrow> wu ! i = Data sig)"
    by auto
  from absent_signature_is_empty_element
    [of ?cs "SlashingPathSpendInfo info" ?st ?vs, THEN conjunct2] scov sval
  obtain ws where ws:
    "CreateSlashingPathWitness (SlashingPathSpendInfo info) ?cs ?vs ?st = Inr ws"
    "length ws = 10"
    "\<forall>i < length ?cs. (?cs ! i = None \<longrightarrow> ws ! i = Data [])
        \<and> (\<forall>sig. ?cs ! i = Some sig \<longrightarrow> ws ! i = Data sig)"
    "\<forall>j < length ?vs. (?vs ! j = None \<longrightarrow> ws ! (length ?cs + j) = Data [])
        \<and> (\<forall>sig. ?vs ! j = Some sig \<longrightarrow> ws ! (length ?cs + j) = Data sig)"
    by auto
  have u0: "wu ! 0 = Data []" and u1: "wu ! 1 = Data []"
    and u2: "wu ! 2 = Data (example_sign (example_key 3))"
    using wu(3) [rule_format, of 0] wu(3) [rule_format, of 1] wu(3) [rule_format, of 2]
    by simp_all
  have s0: "ws ! 0 = Data []"
    using ws(3) [rule_format, of 0] by simp
  have s5: "ws ! 5 = Data []"
    using ws(4) [rule_format, of 0] by (simp add: eval_nat_numeral)
  have s6: "ws ! 6 = Data (example_sign (example_key 7))"
    using ws(4) [rule_format, of 1] by (simp add: eval_nat_numeral)
  show ?thesis
    using build wu(1,2) u0 u1 u2 ws(1,2) s0 s5 s6
    by (intro exI [of _ info] exI [of _ wu] exI [of _ ws] conjI)
qed

end
